theory Spec2Isabelle
  imports
    Complex_Main
    "HOL-Library.Word"
    "HOL-Library.List_Lexorder"
    "HOL-Library.Monad_Syntax"
    "HOL-Library.Log_Nat"
begin

section \<open>JavaScript values used by the two route handlers\<close>

subsection \<open>Strings\<close>

text \<open>
  A JavaScript string is a sequence of UTF-16 code units. The order on strings that
  \<open>Array.prototype.sort\<close> uses by default is the lexicographic order on code units, a
  proper prefix being smaller; that is the order \<open>List_Lexorder\<close> gives to lists of
  words.
\<close>

type_synonym js_string = "16 word list"

definition lit :: "string \<Rightarrow> js_string" where
  "lit s = map (\<lambda>c. word_of_nat (of_char c)) s"

text \<open>\<open>x || d\<close> for a string or null \<open>x\<close>: null and the empty string are falsy.\<close>

definition or_else :: "js_string option \<Rightarrow> js_string \<Rightarrow> js_string" where
  "or_else x d = (case x of None \<Rightarrow> d | Some s \<Rightarrow> if s = [] then d else s)"

subsection \<open>Numbers\<close>

text \<open>
  A Number is NaN, an infinity, the negative zero or a finite value; \<open>Fin 0\<close> is the
  positive zero. The finite values the code computes with are IEEE doubles. A sum, a
  difference, a product and the integer read by \<open>parseInt\<close> are rounded to the nearest
  double by \<open>fl\<close>. A quotient is kept exact: the handlers divide an integer by an
  integer (a row total by the limit, a sum of page counts by a count) and take
  \<open>Math.ceil\<close> or \<open>Math.round\<close> of the quotient at once, and that gives the same integer
  for the exact quotient as for the nearest double while the dividend is below \<open>2^52\<close>
  in absolute value.
\<close>

datatype js_number = NaN | PosInf | NegInf | NegZero | Fin real

fun is_inf :: "js_number \<Rightarrow> bool" where
  "is_inf PosInf = True"
| "is_inf NegInf = True"
| "is_inf _ = False"

fun val :: "js_number \<Rightarrow> real" where
  "val (Fin r) = r"
| "val _ = 0"

fun is_zero :: "js_number \<Rightarrow> bool" where
  "is_zero NegZero = True"
| "is_zero (Fin r) = (r = 0)"
| "is_zero _ = False"

fun negative :: "js_number \<Rightarrow> bool" where
  "negative NegInf = True"
| "negative NegZero = True"
| "negative (Fin r) = (r < 0)"
| "negative _ = False"

definition signed_zero :: "bool \<Rightarrow> js_number" where
  "signed_zero neg = (if neg then NegZero else Fin 0)"

definition signed_inf :: "bool \<Rightarrow> js_number" where
  "signed_inf neg = (if neg then NegInf else PosInf)"

text \<open>
  Rounding to the nearest double, ties to the even significand. For \<open>a > 0\<close>, \<open>binade a\<close>
  is the exponent \<open>e\<close> with \<open>2^e \<le> a < 2^(e+1)\<close>; a double of that binade is a multiple
  of \<open>2^(e-52)\<close>, and of \<open>2^(-1074)\<close> below the normal range. A magnitude that rounds to
  \<open>2^1024\<close> or more overflows to an infinity, one that rounds to 0 gives a zero of
  the sign of the value.
\<close>

definition pow2 :: "int \<Rightarrow> real" where
  "pow2 e = (if 0 \<le> e then 2 ^ nat e else 1 / 2 ^ nat (- e))"

definition binade :: "real \<Rightarrow> int" where
  "binade a = (if 1 \<le> a then bitlen \<lfloor>a\<rfloor> - 1 else - bitlen (\<lceil>1 / a\<rceil> - 1))"

definition round_even :: "real \<Rightarrow> int" where
  "round_even y =
     (let f = \<lfloor>y\<rfloor>; d = y - of_int f
      in if d < 1 / 2 then f
         else if 1 / 2 < d then f + 1
         else if even f then f else f + 1)"

definition round_magnitude :: "real \<Rightarrow> real option" where
  "round_magnitude a =
     (let e = max (binade a) (- 1022);
          m = round_even (a / pow2 (e - 52))
      in if 1024 \<le> e \<or> (e = 1023 \<and> m = 9007199254740992) then None
         else Some (of_int m * pow2 (e - 52)))"

definition fl :: "real \<Rightarrow> js_number" where
  "fl x =
     (if x = 0 then Fin 0
      else case round_magnitude \<bar>x\<bar> of
             None \<Rightarrow> signed_inf (x < 0)
           | Some r \<Rightarrow>
               if r = 0 then signed_zero (x < 0)
               else Fin (if x < 0 then - r else r))"

text \<open>\<open>x < y\<close>; \<open>x > y\<close> is \<open>y < x\<close>. A comparison with NaN is false.\<close>

fun js_lt :: "js_number \<Rightarrow> js_number \<Rightarrow> bool" where
  "js_lt NaN _ = False"
| "js_lt _ NaN = False"
| "js_lt PosInf _ = False"
| "js_lt _ NegInf = False"
| "js_lt NegInf _ = True"
| "js_lt _ PosInf = True"
| "js_lt x y = (val x < val y)"

definition js_gt :: "js_number \<Rightarrow> js_number \<Rightarrow> bool" where
  "js_gt x y = js_lt y x"

text \<open>\<open>x + y\<close>. An exact sum of 0 is the negative zero only for two negative zeros.\<close>

fun js_add :: "js_number \<Rightarrow> js_number \<Rightarrow> js_number" where
  "js_add NaN _ = NaN"
| "js_add _ NaN = NaN"
| "js_add PosInf NegInf = NaN"
| "js_add NegInf PosInf = NaN"
| "js_add PosInf _ = PosInf"
| "js_add NegInf _ = NegInf"
| "js_add _ PosInf = PosInf"
| "js_add _ NegInf = NegInf"
| "js_add x y =
     (if val x + val y = 0 then signed_zero (x = NegZero \<and> y = NegZero)
      else fl (val x + val y))"

text \<open>\<open>x - y\<close>.\<close>

fun js_sub :: "js_number \<Rightarrow> js_number \<Rightarrow> js_number" where
  "js_sub NaN _ = NaN"
| "js_sub _ NaN = NaN"
| "js_sub PosInf PosInf = NaN"
| "js_sub NegInf NegInf = NaN"
| "js_sub PosInf _ = PosInf"
| "js_sub NegInf _ = NegInf"
| "js_sub _ PosInf = NegInf"
| "js_sub _ NegInf = PosInf"
| "js_sub x y =
     (if val x - val y = 0 then signed_zero (x = NegZero \<and> y = Fin 0)
      else fl (val x - val y))"

text \<open>\<open>x * y\<close>.\<close>

definition js_mul :: "js_number \<Rightarrow> js_number \<Rightarrow> js_number" where
  "js_mul x y =
     (if x = NaN \<or> y = NaN then NaN
      else if is_inf x \<or> is_inf y then
        (if is_zero x \<or> is_zero y then NaN else signed_inf (negative x \<noteq> negative y))
      else if val x * val y = 0 then signed_zero (negative x \<noteq> negative y)
      else fl (val x * val y))"

text \<open>
  \<open>x / y\<close>, the quotient of finite values kept exact. The handlers pass it to
  \<open>Math.round\<close> and \<open>Math.ceil\<close> only; lemmas \<open>Math_round_fl_quotient\<close> and
  \<open>Math_ceil_fl_quotient\<close> show that the double nearest to the quotient gives the same
  results for a dividend below \<open>2 ^ 52\<close>.
\<close>

definition js_div :: "js_number \<Rightarrow> js_number \<Rightarrow> js_number" where
  "js_div x y =
     (if x = NaN \<or> y = NaN then NaN
      else if is_inf x then
        (if is_inf y then NaN else signed_inf (negative x \<noteq> negative y))
      else if is_inf y then signed_zero (negative x \<noteq> negative y)
      else if is_zero y then
        (if is_zero x then NaN else signed_inf (negative x \<noteq> negative y))
      else if val x / val y = 0 then signed_zero (negative x \<noteq> negative y)
      else Fin (val x / val y))"

text \<open>\<open>Math.min(x, y)\<close>: NaN if an argument is NaN; the negative zero is below the positive.\<close>

definition Math_min :: "js_number \<Rightarrow> js_number \<Rightarrow> js_number" where
  "Math_min x y =
     (if x = NaN \<or> y = NaN then NaN
      else if js_lt x y then x
      else if js_lt y x then y
      else if x = NegZero then x else y)"

text \<open>\<open>Math.ceil(x)\<close>: a value in \<open>(-1, 0)\<close> gives the negative zero.\<close>

fun Math_ceil :: "js_number \<Rightarrow> js_number" where
  "Math_ceil (Fin r) = (if - 1 < r \<and> r < 0 then NegZero else Fin (of_int \<lceil>r\<rceil>))"
| "Math_ceil x = x"

text \<open>
  \<open>Math.round(x)\<close>: the nearest integer, a tie going up; a value in \<open>[-1/2, 0)\<close> gives
  the negative zero.
\<close>

fun Math_round :: "js_number \<Rightarrow> js_number" where
  "Math_round (Fin r) = (if - (1 / 2) \<le> r \<and> r < 0 then NegZero else Fin (of_int \<lfloor>r + 1 / 2\<rfloor>))"
| "Math_round x = x"

text \<open>
  What \<open>JSON.stringify\<close> writes for a number in a response body: \<open>null\<close> (here \<open>None\<close>)
  for NaN and the infinities, \<open>0\<close> for both zeros.
\<close>

fun json_number :: "js_number \<Rightarrow> real option" where
  "json_number (Fin r) = Some r"
| "json_number NegZero = Some 0"
| "json_number _ = None"

subsection \<open>Arrays, promises and responses\<close>

text \<open>\<open>xs[i]\<close>: \<open>undefined\<close> (here \<open>None\<close>) out of range; reading a property of it throws.\<close>

definition at_index :: "'a list \<Rightarrow> nat \<Rightarrow> 'a option" where
  "at_index xs i = (if i < length xs then Some (xs ! i) else None)"

text \<open>\<open>xs.reduce(f)\<close> with no initial value: a TypeError (here \<open>None\<close>) on an empty array.\<close>

fun reduce1 :: "('a \<Rightarrow> 'a \<Rightarrow> 'a) \<Rightarrow> 'a list \<Rightarrow> 'a option" where
  "reduce1 f [] = None"
| "reduce1 f (x # xs) = Some (foldl f x xs)"

text \<open>\<open>Array.from(new Set(xs))\<close>: the distinct elements in the order of first occurrence.\<close>

definition Array_from_Set :: "'a list \<Rightarrow> 'a list" where
  "Array_from_Set xs = foldl (\<lambda>acc x. if x \<in> set acc then acc else acc @ [x]) [] xs"

text \<open>The outcome of an awaited call of the record store.\<close>

datatype 'a outcome = Rejected | Resolved 'a

text \<open>A handler answers with a JSON body and status 200, or with an error status.\<close>

datatype 'a response = Json200 'a | Error_status nat

section \<open>The author statistics handler\<close>

record author =
  author_id :: js_string
  author_name :: js_string

record book =
  book_id :: js_string
  title :: js_string
  publishedYear :: "int option"
  pages :: "int option"
  genre :: "js_string option"

text \<open>
  A year and a page count are integer Numbers of the store. The objects
  \<open>{title, year}\<close> and \<open>{title, pages}\<close> of the response.
\<close>

type_synonym book_year = "js_string \<times> int option"
type_synonym book_pages = "js_string \<times> int option"

record author_stats =
  authorId :: js_string
  authorName :: js_string
  totalBooks :: nat
  firstBook :: "book_year option"
  latestBook :: "book_year option"
  averagePages :: js_number
  genres :: "js_string list"
  longestBook :: "book_pages option"
  shortestBook :: "book_pages option"

text \<open>
  The two queries the handler sends: \<open>author.findUnique\<close> by id and \<open>book.findMany\<close> by
  \<open>authorId\<close>, ordered by \<open>publishedYear\<close> ascending by the store.
\<close>

record stats_store =
  findUnique :: "js_string \<Rightarrow> author option outcome"
  findMany_books :: "js_string \<Rightarrow> book list outcome"

text \<open>\<open>book.pages || 0\<close>: null and 0 are the falsy values of a page count.\<close>

definition pages_or_0 :: "book \<Rightarrow> int" where
  "pages_or_0 b = (case pages b of None \<Rightarrow> 0 | Some p \<Rightarrow> if p = 0 then 0 else p)"

text \<open>\<open>book => book.genre\<close> as a filter: null and the empty string are falsy.\<close>

definition has_genre :: "book \<Rightarrow> bool" where
  "has_genre b = (case genre b of None \<Rightarrow> False | Some g \<Rightarrow> g \<noteq> [])"

text \<open>
  The statistics of a non-empty book list (the handler from \<open>const totalBooks\<close> on).
  \<open>None\<close> is a TypeError, which the handler's \<open>catch\<close> turns into status 500. The
  names \<open>first\<close>, \<open>latest\<close>, \<open>average\<close>, \<open>gs\<close>, \<open>longest\<close> and \<open>shortest\<close> stand for the
  handler's \<open>firstBook\<close>, \<open>latestBook\<close>, \<open>averagePages\<close>, \<open>genres\<close>, \<open>longestBook\<close> and
  \<open>shortestBook\<close>, which here name the fields of the response.
\<close>

definition compute_stats :: "author \<Rightarrow> book list \<Rightarrow> author_stats option" where
  "compute_stats a books = do {
     let booksWithYear = filter (\<lambda>book. publishedYear book \<noteq> None) books;
     first \<leftarrow> (if length booksWithYear > 0
       then do { b \<leftarrow> at_index booksWithYear 0; Some (Some (title b, publishedYear b)) }
       else Some None);
     latest \<leftarrow> (if length booksWithYear > 0
       then do { b \<leftarrow> at_index booksWithYear (length booksWithYear - 1);
                 Some (Some (title b, publishedYear b)) }
       else Some None);
     let booksWithPages = filter (\<lambda>book. pages book \<noteq> None) books;
     let average = (if length booksWithPages > 0
       then Math_round (js_div
         (foldl (\<lambda>sum book. js_add sum (Fin (of_int (pages_or_0 book)))) (Fin 0)
            booksWithPages)
         (Fin (of_nat (length booksWithPages))))
       else Fin 0);
     let gs = sort (Array_from_Set (map (\<lambda>book. the (genre book)) (filter has_genre books)));
     longest \<leftarrow> (if length booksWithPages > 0
       then map_option Some
         (reduce1 (\<lambda>max book. if pages_or_0 book > pages_or_0 max then book else max)
            booksWithPages)
       else Some None);
     shortest \<leftarrow> (if length booksWithPages > 0
       then map_option Some
         (reduce1 (\<lambda>min book. if pages_or_0 book < pages_or_0 min then book else min)
            booksWithPages)
       else Some None);
     Some \<lparr>authorId = author_id a, authorName = author_name a,
       totalBooks = length books, firstBook = first, latestBook = latest,
       averagePages = average, genres = gs,
       longestBook = map_option (\<lambda>b. (title b, pages b)) longest,
       shortestBook = map_option (\<lambda>b. (title b, pages b)) shortest\<rparr>
   }"

definition GET_stats :: "stats_store \<Rightarrow> js_string \<Rightarrow> author_stats response" where
  "GET_stats store ident =
     (case findUnique store ident of
        Rejected \<Rightarrow> Error_status 500
      | Resolved None \<Rightarrow> Error_status 404
      | Resolved (Some a) \<Rightarrow>
         (case findMany_books store ident of
            Rejected \<Rightarrow> Error_status 500
          | Resolved books \<Rightarrow>
             if length books = 0 then
               Json200 \<lparr>authorId = author_id a, authorName = author_name a,
                 totalBooks = 0, firstBook = None, latestBook = None,
                 averagePages = Fin 0, genres = [],
                 longestBook = None, shortestBook = None\<rparr>
             else (case compute_stats a books of
                     None \<Rightarrow> Error_status 500
                   | Some stats \<Rightarrow> Json200 stats)))"

section \<open>The book search handler\<close>

subsection \<open>Query parameters\<close>

text \<open>
  \<open>searchParams\<close> of the request URL: the decoded name/value pairs in the order of
  the query string. \<open>get\<close> gives the first value of a name, or null.
\<close>

type_synonym search_params = "(js_string \<times> js_string) list"

definition get_param :: "search_params \<Rightarrow> js_string \<Rightarrow> js_string option" where
  "get_param sp name = map_of sp name"

text \<open>
  \<open>parseInt(s)\<close> with no radix: leading white space is skipped, then an optional sign,
  then an optional \<open>0x\<close> or \<open>0X\<close> that selects radix 16, then the longest run of digits
  of the radix; NaN when that run is empty. The integer read is rounded to the nearest
  double, and is an infinity beyond the range of the doubles.
\<close>

definition is_white_space :: "16 word \<Rightarrow> bool" where
  "is_white_space c =
     (c \<in> set [0x9, 0xA, 0xB, 0xC, 0xD, 0x20, 0xA0, 0x1680, 0x2028, 0x2029,
                0x202F, 0x205F, 0x3000, 0xFEFF]
      \<or> (0x2000 \<le> c \<and> c \<le> 0x200A))"

definition digit_value :: "16 word \<Rightarrow> nat option" where
  "digit_value c =
     (if 0x30 \<le> c \<and> c \<le> 0x39 then Some (unat c - 48)
      else if 0x61 \<le> c \<and> c \<le> 0x7A then Some (unat c - 87)
      else if 0x41 \<le> c \<and> c \<le> 0x5A then Some (unat c - 55)
      else None)"

definition is_digit :: "nat \<Rightarrow> 16 word \<Rightarrow> bool" where
  "is_digit radix c = (case digit_value c of None \<Rightarrow> False | Some d \<Rightarrow> d < radix)"

definition strip_sign :: "js_string \<Rightarrow> bool \<times> js_string" where
  "strip_sign s =
     (case s of
        [] \<Rightarrow> (False, [])
      | c # rest \<Rightarrow>
          if c = 0x2D then (True, rest)
          else if c = 0x2B then (False, rest)
          else (False, s))"

definition strip_prefix :: "js_string \<Rightarrow> nat \<times> js_string" where
  "strip_prefix s =
     (case s of
        a # b # rest \<Rightarrow>
          if a = 0x30 \<and> (b = 0x78 \<or> b = 0x58) then (16, rest) else (10, s)
      | _ \<Rightarrow> (10, s))"

definition parseInt :: "js_string \<Rightarrow> js_number" where
  "parseInt s =
     (let (neg, s2) = strip_sign (dropWhile is_white_space s);
          (radix, s3) = strip_prefix s2;
          z = takeWhile (is_digit radix) s3;
          n = foldl (\<lambda>acc c. acc * radix + the (digit_value c)) 0 z
      in if z = [] then NaN
         else if n = 0 then signed_zero neg
         else fl (if neg then - real n else real n))"

text \<open>The handler's constants, each as a function of \<open>searchParams\<close>.\<close>

definition search_of :: "search_params \<Rightarrow> js_string" where
  "search_of sp = or_else (get_param sp (lit ''search'')) []"

definition genre_of :: "search_params \<Rightarrow> js_string" where
  "genre_of sp = or_else (get_param sp (lit ''genre'')) []"

definition authorName_of :: "search_params \<Rightarrow> js_string" where
  "authorName_of sp = or_else (get_param sp (lit ''authorName'')) []"

definition page_of :: "search_params \<Rightarrow> js_number" where
  "page_of sp = parseInt (or_else (get_param sp (lit ''page'')) (lit ''1''))"

definition limit_of :: "search_params \<Rightarrow> js_number" where
  "limit_of sp =
     Math_min (parseInt (or_else (get_param sp (lit ''limit'')) (lit ''10''))) (Fin 50)"

definition sortBy_of :: "search_params \<Rightarrow> js_string" where
  "sortBy_of sp = or_else (get_param sp (lit ''sortBy'')) (lit ''createdAt'')"

definition order_of :: "search_params \<Rightarrow> js_string" where
  "order_of sp = or_else (get_param sp (lit ''order'')) (lit ''desc'')"

definition validSortFields :: "js_string list" where
  "validSortFields = [lit ''title'', lit ''publishedYear'', lit ''createdAt'']"

definition sortField_of :: "search_params \<Rightarrow> js_string" where
  "sortField_of sp =
     (if sortBy_of sp \<in> set validSortFields then sortBy_of sp else lit ''createdAt'')"

definition sortOrder_of :: "search_params \<Rightarrow> js_string" where
  "sortOrder_of sp = (if order_of sp = lit ''asc'' then lit ''asc'' else lit ''desc'')"

subsection \<open>The filter object\<close>

text \<open>
  The store's filter on a string field is a plain string (equality) or an object
  \<open>{contains, mode}\<close>; the filter on the \<open>author\<close> relation holds a filter on its name.
  A field the handler never assigns is absent (\<open>None\<close>).
\<close>

datatype query_mode = Default_mode | Insensitive

datatype string_filter = Equals js_string | Contains js_string query_mode

record author_where =
  name_filter :: "string_filter option"

record book_where =
  title_filter :: "string_filter option"
  genre_filter :: "string_filter option"
  author_filter :: "author_where option"

definition where_of :: "search_params \<Rightarrow> book_where" where
  "where_of sp =
     (let w0 = \<lparr>title_filter = None, genre_filter = None, author_filter = None\<rparr>;
          w1 = (if search_of sp \<noteq> []
                then w0\<lparr>title_filter := Some (Contains (search_of sp) Insensitive)\<rparr>
                else w0);
          w2 = (if genre_of sp \<noteq> []
                then w1\<lparr>genre_filter := Some (Equals (genre_of sp))\<rparr>
                else w1);
          w3 = (if authorName_of sp \<noteq> []
                then w2\<lparr>author_filter :=
                  Some \<lparr>name_filter = Some (Contains (authorName_of sp) Insensitive)\<rparr>\<rparr>
                else w2)
      in w3)"

definition skip_of :: "search_params \<Rightarrow> js_number" where
  "skip_of sp = js_mul (js_sub (page_of sp) (Fin 1)) (limit_of sp)"

subsection \<open>The handler\<close>

text \<open>
  The arguments of \<open>book.findMany\<close> (its \<open>include\<close> is the same in every call and is
  left out) and the two queries of the store the handler awaits.
\<close>

record find_args =
  arg_where :: book_where
  arg_orderBy :: "js_string \<times> js_string"
  arg_skip :: js_number
  arg_take :: js_number

record 'row search_store =
  count_books :: "book_where \<Rightarrow> nat outcome"
  findMany_rows :: "find_args \<Rightarrow> 'row list outcome"

record pagination_info =
  page :: js_number
  limit :: js_number
  total :: nat
  totalPages :: js_number
  hasNext :: bool
  hasPrev :: bool

record 'row search_body =
  data :: "'row list"
  pagination :: pagination_info

definition findMany_args :: "search_params \<Rightarrow> find_args" where
  "findMany_args sp =
     \<lparr>arg_where = where_of sp,
      arg_orderBy = (sortField_of sp, sortOrder_of sp),
      arg_skip = skip_of sp,
      arg_take = limit_of sp\<rparr>"

definition GET_search :: "'row search_store \<Rightarrow> search_params \<Rightarrow> 'row search_body response" where
  "GET_search store sp =
     (case count_books store (where_of sp) of
        Rejected \<Rightarrow> Error_status 500
      | Resolved n \<Rightarrow>
         (case findMany_rows store (findMany_args sp) of
            Rejected \<Rightarrow> Error_status 500
          | Resolved books \<Rightarrow>
             (let pages_total = Math_ceil (js_div (Fin (of_nat n)) (limit_of sp));
                  next = js_lt (page_of sp) pages_total;
                  prev = js_gt (page_of sp) (Fin 1)
              in Json200
                   \<lparr>data = books,
                    pagination =
                      \<lparr>page = page_of sp, limit = limit_of sp, total = n,
                       totalPages = pages_total, hasNext = next, hasPrev = prev\<rparr>\<rparr>)))"

subsection \<open>How the record store reads a filter object\<close>

text \<open>
  Modelled from the spec: the record store, which is not part of the handler, keeps a
  row when every filter present in the object holds of it (the filters are ANDed).
  Containment is that of a contiguous substring; in mode \<open>insensitive\<close> both strings are
  case-folded first, by the folding of the store's collation, a parameter here. Equality
  is that of strings, and a row without a genre has none that is equal. The filters
  read the title and the genre of a book and the name of its author.
\<close>

fun starts_with :: "'a list \<Rightarrow> 'a list \<Rightarrow> bool" where
  "starts_with _ [] = True"
| "starts_with [] (y # ys) = False"
| "starts_with (x # xs) (y # ys) = (x = y \<and> starts_with xs ys)"

fun has_substring :: "'a list \<Rightarrow> 'a list \<Rightarrow> bool" where
  "has_substring [] sub = (sub = [])"
| "has_substring (x # xs) sub = (starts_with (x # xs) sub \<or> has_substring xs sub)"

record book_row =
  row_title :: js_string
  row_genre :: "js_string option"
  row_author_name :: js_string

fun string_filter_holds ::
  "(js_string \<Rightarrow> js_string) \<Rightarrow> string_filter \<Rightarrow> js_string option \<Rightarrow> bool" where
  "string_filter_holds cf f None = False"
| "string_filter_holds cf (Equals x) (Some s) = (s = x)"
| "string_filter_holds cf (Contains x Default_mode) (Some s) = has_substring s x"
| "string_filter_holds cf (Contains x Insensitive) (Some s) =
     has_substring (cf s) (cf x)"

definition present_holds :: "'f option \<Rightarrow> ('f \<Rightarrow> bool) \<Rightarrow> bool" where
  "present_holds f holds = (case f of None \<Rightarrow> True | Some x \<Rightarrow> holds x)"

definition where_holds :: "(js_string \<Rightarrow> js_string) \<Rightarrow> book_where \<Rightarrow> book_row \<Rightarrow> bool" where
  "where_holds cf w row =
     (present_holds (title_filter w) (\<lambda>f. string_filter_holds cf f (Some (row_title row)))
      \<and> present_holds (genre_filter w) (\<lambda>f. string_filter_holds cf f (row_genre row))
      \<and> present_holds (author_filter w) (\<lambda>aw.
            present_holds (name_filter aw)
              (\<lambda>f. string_filter_holds cf f (Some (row_author_name row)))))"

subsection \<open>The order of the statistics query\<close>

text \<open>
  Modelled from the spec: the order in which the store returns the books of the
  statistics query, \<open>orderBy: {publishedYear: 'asc'}\<close>. A book never comes after one of
  a greater year, and the books without a year come after those with one.
\<close>

definition year_before :: "book \<Rightarrow> book \<Rightarrow> bool" where
  "year_before b c =
     (case (publishedYear b, publishedYear c) of
        (Some x, Some y) \<Rightarrow> x \<le> y
      | (None, Some y) \<Rightarrow> False
      | _ \<Rightarrow> True)"

definition year_ascending :: "book list \<Rightarrow> bool" where
  "year_ascending books = sorted_wrt year_before books"

section \<open>Lemmas on the primitives\<close>

lemma pow2_pos: "0 < pow2 e"
  by (simp add: pow2_def)

lemma round_even_of_int: "round_even (of_int n) = n"
  by (simp add: round_even_def)


lemma binade_of_int: "1 \<le> a \<Longrightarrow> binade (of_int a) = bitlen a - 1"
  by (simp add: binade_def)

lemma pow2_diff_mult:
  assumes "0 \<le> e" "e \<le> 52"
  shows "of_int a / pow2 (e - 52) = of_int (a * 2 ^ nat (52 - e))"
proof -
  have "pow2 (e - 52) = 1 / 2 ^ nat (52 - e)"
    using assms by (auto simp: pow2_def)
  then show ?thesis by simp
qed

lemma round_magnitude_of_int:
  assumes "1 \<le> a" "a \<le> 2 ^ 53"
  shows "round_magnitude (of_int a) = Some (of_int a)"
proof -
  define e where "e = bitlen a - 1"
  have a0: "0 < a" using assms by simp
  from bitlen_bounds[OF a0] have lo: "2 ^ nat e \<le> a" and hi: "a < 2 ^ nat (bitlen a)"
    by (simp_all add: e_def)
  have e0: "0 \<le> e" using a0 by (simp add: e_def bitlen_alt_def)
  have p: "(2::int) ^ nat e \<le> 2 ^ 53" using lo assms(2) by linarith
  have "nat e \<le> 53"
    by (rule power_le_imp_le_exp[of "2::int", OF _ p]) simp
  then have e53: "e \<le> 53" by simp
  have b: "max (binade (of_int a)) (- 1022) = e"
    using e0 assms(1) by (simp add: binade_of_int e_def)
  have r: "of_int (round_even (of_int a / pow2 (e - 52))) * pow2 (e - 52) = (of_int a :: real)"
  proof (cases "e \<le> 52")
    case True
    have "of_int a / pow2 (e - 52) = (of_int (a * 2 ^ nat (52 - e)) :: real)"
      by (rule pow2_diff_mult[OF e0 True])
    then have "round_even (of_int a / pow2 (e - 52)) = a * 2 ^ nat (52 - e)"
      by (simp only: round_even_of_int)
    moreover have "pow2 (e - 52) = 1 / 2 ^ nat (52 - e)"
      using True by (auto simp: pow2_def)
    ultimately show ?thesis by simp
  next
    case False
    then have e: "e = 53" using e53 by simp
    then have "a = 2 ^ 53" using lo assms(2) by simp
    then show ?thesis by (simp add: e pow2_def round_even_def)
  qed
  have no: "\<not> (1024 \<le> e \<or> (e = 1023 \<and> round_even (of_int a / pow2 (e - 52)) = 9007199254740992))"
    using e53 by simp
  show ?thesis
    unfolding round_magnitude_def Let_def b using no r by simp
qed

lemma fl_of_int:
  assumes "\<bar>k\<bar> \<le> 2 ^ 53"
  shows "fl (of_int k) = Fin (of_int k)"
proof (cases "k = 0")
  case True
  then show ?thesis by (simp add: fl_def)
next
  case False
  then have a: "1 \<le> \<bar>k\<bar>" by simp
  have "round_magnitude \<bar>of_int k\<bar> = Some (of_int \<bar>k\<bar>)"
    using round_magnitude_of_int[OF a assms] by simp
  then show ?thesis using False by (auto simp: fl_def)
qed


lemma js_add_int:
  assumes "\<bar>a + b\<bar> \<le> 2 ^ 53"
  shows "js_add (Fin (of_int a)) (Fin (of_int b)) = Fin (of_int (a + b))"
proof -
  have "fl (of_int a + of_int b) = Fin (of_int (a + b))"
    using fl_of_int[OF assms] by simp
  then show ?thesis by (auto simp: signed_zero_def)
qed



lemma foldl_js_add_exact:
  "\<bar>s\<bar> + sum_list (map (\<lambda>b. \<bar>pages_or_0 b\<bar>) bs) \<le> 2 ^ 53 \<Longrightarrow>
   foldl (\<lambda>sum book. js_add sum (Fin (of_int (pages_or_0 book)))) (Fin (of_int s)) bs =
   Fin (of_int (s + sum_list (map pages_or_0 bs)))"
proof (induction bs arbitrary: s)
  case Nil
  then show ?case by simp
next
  case (Cons b bs)
  have "\<bar>s + pages_or_0 b\<bar> \<le> \<bar>s\<bar> + \<bar>pages_or_0 b\<bar>" by simp
  moreover have "0 \<le> sum_list (map (\<lambda>b. \<bar>pages_or_0 b\<bar>) bs)"
    by (rule sum_list_nonneg) auto
  ultimately have step: "\<bar>s + pages_or_0 b\<bar> \<le> 2 ^ 53"
    and rest: "\<bar>s + pages_or_0 b\<bar> + sum_list (map (\<lambda>b. \<bar>pages_or_0 b\<bar>) bs) \<le> 2 ^ 53"
    using Cons.prems by simp_all
  have "foldl (\<lambda>sum book. js_add sum (Fin (of_int (pages_or_0 book)))) (Fin (of_int s)) (b # bs) =
      foldl (\<lambda>sum book. js_add sum (Fin (of_int (pages_or_0 book))))
        (Fin (of_int (s + pages_or_0 b))) bs"
    by (simp only: foldl_Cons js_add_int[OF step])
  also have "\<dots> = Fin (of_int (s + pages_or_0 b + sum_list (map pages_or_0 bs)))"
    by (rule Cons.IH[OF rest])
  finally show ?case by (simp add: add.assoc)
qed

lemma map_pages_or_0_filter:
  "map pages_or_0 (filter (\<lambda>book. pages book \<noteq> None) bs) = List.map_filter pages bs"
  by (induction bs) (auto simp: List.map_filter_simps pages_or_0_def split: option.splits)

lemma js_div_Fin: "0 < n \<Longrightarrow> js_div (Fin s) (Fin n) = Fin (s / n)"
  by (auto simp: js_div_def signed_zero_def)

lemma json_Math_round_Fin: "json_number (Math_round (Fin r)) = Some (of_int (round r))"
proof (cases "- (1 / 2) \<le> r \<and> r < 0")
  case True
  then have "\<lfloor>r + 1 / 2\<rfloor> = 0" by linarith
  with True show ?thesis by (simp add: round_def)
next
  case False
  then show ?thesis by (auto simp: round_def)
qed

text \<open>
  The quotient rounded to a double: for a dividend below \<open>2 ^ 52\<close> in absolute value and
  a positive whole divisor, \<open>Math.round\<close> and \<open>Math.ceil\<close> of the rounded quotient are those
  of the exact quotient of \<open>js_div\<close>.
\<close>

lemma pow2_add: "pow2 (a + b) = pow2 a * pow2 b"
proof -
  have "pow2 e = 2 powr (of_int e)" for e
    by (simp add: pow2_def powr_realpow[symmetric] powr_minus divide_inverse)
  then show ?thesis by (simp add: powr_add)
qed

lemma pow2_mono: "a \<le> b \<Longrightarrow> pow2 a \<le> pow2 b"
proof -
  have "pow2 e = 2 powr (of_int e)" for e
    by (simp add: pow2_def powr_realpow[symmetric] powr_minus divide_inverse)
  then show "a \<le> b \<Longrightarrow> pow2 a \<le> pow2 b" by simp
qed

lemma pow2_less_cancel: "pow2 a < pow2 b \<Longrightarrow> a < b"
  using pow2_mono[of b a] by (cases "a < b") auto

lemma pow2_nat: "0 \<le> e \<Longrightarrow> pow2 e = 2 ^ nat e"
  by (simp add: pow2_def)

lemma binade_bounds:
  assumes "0 < a"
  shows "pow2 (binade a) \<le> a" and "a < pow2 (binade a + 1)"
proof -
  have "pow2 (binade a) \<le> a \<and> a < pow2 (binade a + 1)"
  proof (cases "1 \<le> a")
    case True
    define k where "k = \<lfloor>a\<rfloor>"
    have k: "0 < k" using True by (simp add: k_def)
    from bitlen_bounds[OF k] have lo: "2 ^ nat (bitlen k - 1) \<le> k" and hi: "k < 2 ^ nat (bitlen k)"
      by simp_all
    have b1: "1 \<le> bitlen k" using k by (simp add: bitlen_alt_def)
    have e: "binade a = bitlen k - 1" using True by (simp add: binade_def k_def)
    have "pow2 (bitlen k - 1) = of_int (2 ^ nat (bitlen k - 1))"
      using b1 by (simp add: pow2_nat)
    also have "\<dots> \<le> of_int k" using lo by (simp only: of_int_le_iff)
    also have "\<dots> \<le> a" by (simp add: k_def)
    finally have l: "pow2 (binade a) \<le> a" by (simp only: e)
    have "a < of_int (k + 1)" by (simp add: k_def)
    also have "\<dots> \<le> of_int (2 ^ nat (bitlen k))" using hi by (simp only: of_int_le_iff)
    also have "\<dots> = pow2 (bitlen k)" using b1 by (simp add: pow2_nat)
    finally have "a < pow2 (binade a + 1)" by (simp add: e)
    with l show ?thesis by simp
  next
    case False
    define y where "y = 1 / a"
    define N where "N = \<lceil>y\<rceil>"
    define b where "b = bitlen (N - 1)"
    have y1: "1 < y" using False assms by (simp add: y_def)
    then have N2: "2 \<le> N" unfolding N_def by linarith
    then have N1: "0 < N - 1" by simp
    from bitlen_bounds[OF N1] have lo: "2 ^ nat (b - 1) \<le> N - 1" and hi: "N - 1 < 2 ^ nat b"
      by (simp_all add: b_def)
    have b1: "1 \<le> b" using N1 by (simp add: b_def bitlen_alt_def)
    have e: "binade a = - b" using False by (simp add: binade_def b_def N_def y_def)
    have a_eq: "a = 1 / y" using assms by (simp add: y_def)
    have "y \<le> of_int N" by (simp add: N_def)
    also have "\<dots> \<le> of_int (2 ^ nat b)" using hi by (simp only: of_int_le_iff)
    finally have yb: "y \<le> 2 ^ nat b" by simp
    have "pow2 (- b) = 1 / 2 ^ nat b" using b1 by (simp add: pow2_def)
    also have "\<dots> \<le> 1 / y" using yb y1 by (simp add: frac_le)
    finally have "pow2 (- b) \<le> a" using a_eq by simp
    then have l: "pow2 (binade a) \<le> a" by (simp only: e)
    have "(of_int (2 ^ nat (b - 1)) :: real) \<le> of_int (N - 1)" using lo by (simp only: of_int_le_iff)
    also have "\<dots> < y" unfolding N_def by linarith
    finally have ylo: "2 ^ nat (b - 1) < y" by simp
    have "1 / y < 1 / 2 ^ nat (b - 1)" using ylo by (simp add: frac_less2)
    also have "\<dots> = pow2 (- b + 1)" using b1 by (auto simp: pow2_def nat_diff_distrib)
    finally have "a < pow2 (- b + 1)" using a_eq by simp
    then have "a < pow2 (binade a + 1)" by (simp only: e)
    with l show ?thesis by simp
  qed
  then show "pow2 (binade a) \<le> a" and "a < pow2 (binade a + 1)" by simp_all
qed

lemma round_even_error: "\<bar>of_int (round_even y) - y\<bar> \<le> 1 / 2"
  unfolding round_even_def Let_def by (auto simp: abs_le_iff)

lemma pow2_52: "pow2 52 = 2 ^ 52"
  by (simp add: pow2_def)

lemma fl_normal:
  assumes lo: "pow2 (- 1022) \<le> \<bar>x\<bar>" and hi: "\<bar>x\<bar> < pow2 52"
  shows "fl x = Fin (sgn x * (of_int (round_even (\<bar>x\<bar> / pow2 (binade \<bar>x\<bar> - 52))) *
                              pow2 (binade \<bar>x\<bar> - 52)))"
    and "binade \<bar>x\<bar> \<le> 51"
proof -
  define a where "a = \<bar>x\<bar>"
  define e where "e = binade a"
  define u where "u = pow2 (e - 52)"
  define m where "m = round_even (a / u)"
  have a0: "0 < a" using lo pow2_pos[of "- 1022"] by (simp add: a_def)
  from binade_bounds[OF a0] have b1: "pow2 e \<le> a" and b2: "a < pow2 (e + 1)"
    by (simp_all add: e_def)
  have "pow2 (- 1022) < pow2 (e + 1)" using lo b2 by (simp add: a_def)
  then have e_lo: "- 1022 \<le> e" using pow2_less_cancel by fastforce
  have "pow2 e < pow2 52" using b1 hi by (simp add: a_def)
  then have e_hi: "e \<le> 51" using pow2_less_cancel by fastforce
  have u0: "0 < u" by (simp add: u_def pow2_pos)
  have "pow2 e = pow2 (e - 52) * pow2 52" by (simp add: pow2_add[symmetric])
  then have "pow2 52 * u \<le> a" using b1 by (simp add: u_def mult.commute)
  then have "pow2 52 \<le> a / u" using u0 by (simp add: pos_le_divide_eq)
  then have big: "2 ^ 52 \<le> a / u" by (simp add: pow2_52)
  have "\<bar>of_int m - a / u\<bar> \<le> 1 / 2" unfolding m_def by (rule round_even_error)
  then have "2 ^ 52 - 1 / 2 \<le> (of_int m :: real)" using big by linarith
  moreover have "(1::real) \<le> 2 ^ 52 - 1 / 2" by simp
  ultimately have m1: "(1::real) \<le> of_int m" by linarith
  then have m0: "0 < of_int m * u" using u0 by simp
  have mx: "max (binade a) (- 1022) = e" using e_lo by (simp add: e_def)
  have rm: "round_magnitude a = Some (of_int m * u)"
    unfolding round_magnitude_def Let_def mx using e_hi by (simp add: m_def u_def)
  have x0: "x \<noteq> 0" using a0 by (auto simp: a_def)
  have "fl x = Fin (sgn x * (of_int m * u))"
    using rm m0 x0 by (auto simp: fl_def a_def sgn_if)
  then show "fl x = Fin (sgn x * (of_int (round_even (\<bar>x\<bar> / pow2 (binade \<bar>x\<bar> - 52))) *
                              pow2 (binade \<bar>x\<bar> - 52)))"
    by (simp add: m_def u_def e_def a_def)
  show "binade \<bar>x\<bar> \<le> 51" using e_hi by (simp add: e_def a_def)
qed

lemma fl_normal_error:
  assumes lo: "pow2 (- 1022) \<le> \<bar>x\<bar>" and hi: "\<bar>x\<bar> < pow2 52"
  shows "\<exists>r. fl x = Fin r \<and> \<bar>r - x\<bar> \<le> \<bar>x\<bar> / 2 ^ 53"
proof -
  define a where "a = \<bar>x\<bar>"
  define u where "u = pow2 (binade a - 52)"
  define m where "m = round_even (a / u)"
  have a0: "0 < a" using lo pow2_pos[of "- 1022"] by (simp add: a_def)
  have u0: "0 < u" by (simp add: u_def pow2_pos)
  have f: "fl x = Fin (sgn x * (of_int m * u))"
    using fl_normal(1)[OF lo hi] by (simp add: m_def u_def a_def)
  have "\<bar>of_int m - a / u\<bar> \<le> 1 / 2" unfolding m_def by (rule round_even_error)
  then have "\<bar>of_int m - a / u\<bar> * u \<le> 1 / 2 * u" using u0 by (simp only: mult_le_cancel_right_pos)
  moreover have "(of_int m - a / u) * u = of_int m * u - a"
    using u0 by (simp add: left_diff_distrib)
  then have "\<bar>of_int m - a / u\<bar> * u = \<bar>of_int m * u - a\<bar>"
    using u0 abs_mult_pos[of u "of_int m - a / u"] by simp
  ultimately have err: "\<bar>of_int m * u - a\<bar> \<le> u / 2" by simp
  have "pow2 (binade a) \<le> a" by (rule binade_bounds(1)[OF a0])
  moreover have "pow2 (binade a) = pow2 (binade a - 52) * pow2 52"
    by (simp add: pow2_add[symmetric])
  ultimately have "u * 2 ^ 52 \<le> a" by (simp add: u_def pow2_52)
  then have "u / 2 \<le> a / 2 ^ 53" by simp
  with err have e2: "\<bar>of_int m * u - a\<bar> \<le> a / 2 ^ 53" by simp
  have x0: "x \<noteq> 0" using a0 by (auto simp: a_def)
  have "\<bar>sgn x * (of_int m * u) - x\<bar> = \<bar>of_int m * u - a\<bar>"
  proof (cases "x < 0")
    case True
    then have "sgn x * (of_int m * u) - x = - (of_int m * u - a)"
      by (simp add: a_def)
    then show ?thesis by (simp only: abs_minus_cancel)
  next
    case False
    then have "sgn x * (of_int m * u) - x = of_int m * u - a"
      using x0 by (simp add: a_def)
    then show ?thesis by simp
  qed
  with e2 f show ?thesis by (auto simp: a_def)
qed

lemma fl_half_int:
  assumes "k \<noteq> 0" and "\<bar>k\<bar> < 2 ^ 53"
  shows "fl (of_int k / 2) = Fin (of_int k / 2)"
proof -
  define x :: real where "x = of_int k / 2"
  define e where "e = binade \<bar>x\<bar>"
  have ax: "\<bar>x\<bar> = of_int \<bar>k\<bar> / 2" by (simp add: x_def)
  have "(1::real) \<le> of_int \<bar>k\<bar>" using assms(1) by (simp add: of_int_le_iff[of 1, simplified] del: of_int_abs)
  then have "1 / 2 \<le> \<bar>x\<bar>" by (simp add: ax)
  moreover have "pow2 (- 1022) \<le> 1 / 2" by (simp add: pow2_def)
  ultimately have lo: "pow2 (- 1022) \<le> \<bar>x\<bar>" by simp
  have "(of_int \<bar>k\<bar> :: real) < 2 ^ 53" using assms(2) by (simp only: of_int_less_iff[symmetric, where ?'a = real]) simp
  then have hi: "\<bar>x\<bar> < pow2 52" by (simp add: ax pow2_52)
  from fl_normal[OF lo hi] have f: "fl x = Fin (sgn x * (of_int (round_even (\<bar>x\<bar> / pow2 (e - 52))) *
      pow2 (e - 52)))" and e51: "e \<le> 51"
    by (simp_all add: e_def)
  define j where "j = nat (51 - e)"
  have u: "pow2 (e - 52) = 1 / (2 * 2 ^ j)"
    using e51 by (simp add: pow2_def j_def power_Suc[symmetric] Suc_nat_eq_nat_zadd1 del: power_Suc)
  have "\<bar>x\<bar> / pow2 (e - 52) = of_int (\<bar>k\<bar> * 2 ^ j)"
    by (simp add: u ax)
  then have "round_even (\<bar>x\<bar> / pow2 (e - 52)) = \<bar>k\<bar> * 2 ^ j"
    by (simp only: round_even_of_int)
  then have "fl x = Fin (sgn x * \<bar>x\<bar>)" using f by (simp add: u ax)
  then show ?thesis by (simp add: x_def mult_sgn_abs)
qed

lemma fl_quotient_error:
  assumes s0: "s \<noteq> 0" and s: "\<bar>s\<bar> < 2 ^ 52" and n0: "0 < n" and nb: "n \<le> 2 ^ 1022"
  shows "\<exists>r. fl (of_int s / of_nat n) = Fin r \<and> \<bar>r - of_int s / of_nat n\<bar> < 1 / (2 * of_nat n)"
proof -
  define q :: real where "q = of_int s / of_nat n"
  have rn: "(0::real) < of_nat n" using n0 by simp
  have aq: "\<bar>q\<bar> = of_int \<bar>s\<bar> / of_nat n" by (simp add: q_def)
  have s1: "(1::real) \<le> of_int \<bar>s\<bar>" using s0 by (simp add: of_int_le_iff[of 1, simplified] del: of_int_abs)
  have sr: "(of_int \<bar>s\<bar> :: real) < 2 ^ 52"
    using s by (simp only: of_int_less_iff[symmetric, where ?'a = real]) simp
  have "real n \<le> 2 ^ 1022" using nb by (simp only: of_nat_le_iff[symmetric, where ?'a = real]) simp
  then have "1 / 2 ^ 1022 \<le> 1 / real n" using rn by (simp add: frac_le)
  moreover have "1 / real n \<le> \<bar>q\<bar>" unfolding aq using s1 rn by (simp add: divide_right_mono)
  moreover have "pow2 (- 1022) = 1 / 2 ^ 1022" by (simp only: pow2_def) simp
  ultimately have lo: "pow2 (- 1022) \<le> \<bar>q\<bar>" by simp
  have "of_int \<bar>s\<bar> / real n \<le> of_int \<bar>s\<bar>"
    using rn n0 s1 by (simp add: pos_divide_le_eq mult_le_cancel_left1 del: of_int_abs)
  then have hi: "\<bar>q\<bar> < pow2 52" using sr unfolding aq pow2_52 by linarith
  from fl_normal_error[OF lo hi] obtain r where r: "fl q = Fin r" and e: "\<bar>r - q\<bar> \<le> \<bar>q\<bar> / 2 ^ 53"
    by blast
  have "\<bar>q\<bar> < 2 ^ 52 / real n"
    unfolding aq using sr rn by (simp only: divide_strict_right_mono)
  then have "\<bar>q\<bar> / 2 ^ 53 < 2 ^ 52 / real n / 2 ^ 53"
    by (rule divide_strict_right_mono) simp
  also have "\<dots> = 1 / (2 * real n)" by simp
  finally have "\<bar>r - q\<bar> < 1 / (2 * real n)" using e by simp
  with r show ?thesis by (auto simp: q_def)
qed

lemma round_fl_quotient:
  assumes s: "\<bar>s\<bar> < 2 ^ 52" and n0: "0 < n" and nb: "n \<le> 2 ^ 1022"
  shows "\<exists>r. fl (of_int s / of_nat n) = Fin r \<and> round r = round (of_int s / of_nat n :: real)"
proof (cases "s = 0")
  case True
  then show ?thesis by (simp add: fl_def)
next
  case False
  define q :: real where "q = of_int s / of_nat n"
  define K where "K = 2 * s + int n"
  define N where "N = 2 * int n"
  define m where "m = K div N"
  define d where "d = K mod N"
  have N0: "0 < N" using n0 by (simp add: N_def)
  have rN: "(0::real) < of_int N" using N0 by simp
  have K: "K = N * m + d" by (simp add: m_def d_def)
  have d0: "0 \<le> d" and dN: "d < N" using N0 by (simp_all add: d_def)
  have qh: "q + 1 / 2 = of_int K / of_int N"
    using n0 by (simp add: q_def K_def N_def field_simps)
  have "of_int K / of_int N = (of_int m :: real) + of_int d / of_int N"
    using rN by (simp add: K field_simps)
  with qh have qm: "q + 1 / 2 = of_int m + of_int d / of_int N" by simp
  from fl_quotient_error[OF False s n0 nb] obtain r where r: "fl q = Fin r"
    and e: "\<bar>r - q\<bar> < 1 / of_int N"
    by (auto simp: q_def N_def)
  have fq: "\<lfloor>q + 1 / 2\<rfloor> = m"
  proof (rule floor_unique)
    have "0 \<le> of_int d / (of_int N :: real)" using d0 rN by simp
    then show "of_int m \<le> q + 1 / 2" using qm by simp
    have "of_int d / (of_int N :: real) < 1" using dN rN by simp
    then show "q + 1 / 2 < of_int m + 1" using qm by simp
  qed
  have "round r = round q"
  proof (cases "d = 0")
    case True
    then have qk: "q = of_int (2 * m - 1) / 2" using qm by simp
    have k0: "2 * m - 1 \<noteq> 0" by presburger
    have kb: "\<bar>2 * m - 1\<bar> < 2 ^ 53"
    proof -
      have "\<bar>q\<bar> \<le> of_int \<bar>s\<bar>"
        using n0 by (simp add: q_def pos_divide_le_eq mult_le_cancel_left1 del: of_int_abs)
           (simp add: mult_le_cancel_left1[of "\<bar>of_int s :: real\<bar>" "real n"])
      moreover have "(of_int \<bar>s\<bar> :: real) < 2 ^ 52"
        using s by (simp only: of_int_less_iff[symmetric, where ?'a = real]) simp
      ultimately have "\<bar>q\<bar> < 2 ^ 52" by linarith
      then have "\<bar>of_int (2 * m - 1) :: real\<bar> < 2 ^ 53"
        using qk by simp
      then have "(of_int \<bar>2 * m - 1\<bar> :: real) < of_int (2 ^ 53)" by simp
      then show ?thesis by (simp only: of_int_less_iff)
    qed
    have "fl q = Fin q" unfolding qk by (rule fl_half_int[OF k0 kb])
    with r show ?thesis by simp
  next
    case False
    then have "1 \<le> d" using d0 by simp
    then have lo: "1 / of_int N \<le> of_int d / (of_int N :: real)"
      using rN by (simp add: divide_right_mono)
    have "d \<le> N - 1" using dN by simp
    then have "(of_int d :: real) \<le> of_int (N - 1)" by (simp only: of_int_le_iff)
    then have "(of_int d :: real) \<le> of_int N - 1" by simp
    then have "of_int d / (of_int N :: real) \<le> (of_int N - 1) / of_int N"
      using rN by (simp add: divide_right_mono)
    also have "\<dots> = 1 - 1 / of_int N" using rN by (simp add: field_simps)
    finally have hi: "of_int d / (of_int N :: real) \<le> 1 - 1 / of_int N" .
    have "\<lfloor>r + 1 / 2\<rfloor> = m"
    proof (rule floor_unique)
      show "of_int m \<le> r + 1 / 2" using qm lo e by linarith
      show "r + 1 / 2 < of_int m + 1" using qm hi e by linarith
    qed
    with fq show ?thesis by (simp add: round_def)
  qed
  with r show ?thesis by (auto simp: q_def)
qed

lemma Math_round_fl_quotient:
  assumes "\<bar>s\<bar> < 2 ^ 52" and "0 < n" and "n \<le> 2 ^ 1022"
  shows "json_number (Math_round (fl (of_int s / of_nat n))) =
         json_number (Math_round (js_div (Fin (of_int s)) (Fin (of_nat n))))"
proof -
  from round_fl_quotient[OF assms] obtain r where "fl (of_int s / of_nat n) = Fin r"
    and "round r = round (of_int s / of_nat n :: real)" by blast
  moreover have "js_div (Fin (of_int s)) (Fin (of_nat n)) = Fin (of_int s / of_nat n)"
    using assms(2) by (simp add: js_div_Fin)
  ultimately show ?thesis by (simp only: json_Math_round_Fin)
qed

lemma Math_ceil_fl_quotient:
  assumes t: "t < 2 ^ 52" and l0: "0 < l" and lb: "l \<le> 2 ^ 1022"
  shows "Math_ceil (fl (of_nat t / of_nat l)) =
         Math_ceil (js_div (Fin (of_nat t)) (Fin (of_nat l)))"
proof -
  define q :: real where "q = of_nat t / of_nat l"
  have rl: "(0::real) < of_nat l" using l0 by simp
  have dv: "js_div (Fin (of_nat t)) (Fin (of_nat l)) = Fin q"
    using l0 by (simp add: js_div_Fin q_def)
  have "Math_ceil (fl q) = Math_ceil (Fin q)"
  proof (cases "t mod l = 0")
    case True
    then have "t = l * (t div l)" by auto
    then have "real t = real l * real (t div l)" by (metis of_nat_mult)
    then have qi: "q = of_int (int (t div l))" using rl by (simp add: q_def)
    have "t div l \<le> t" by simp
    then have "t div l < 2 ^ 52" using t by (rule le_less_trans)
    then have "int (t div l) < 2 ^ 52" by simp
    then have "\<bar>int (t div l)\<bar> \<le> 2 ^ 53" by simp
    from fl_of_int[OF this] show ?thesis by (simp only: qi)
  next
    case False
    define m where "m = t div l"
    define d where "d = t mod l"
    have d1: "1 \<le> d" using False by (simp add: d_def)
    have "d < l" using l0 by (simp add: d_def)
    then have dl: "d \<le> l - 1" by linarith
    have "t = l * m + d" by (simp add: m_def d_def)
    then have "real t = real l * real m + real d" by (metis of_nat_add of_nat_mult)
    then have qm: "q = real m + real d / real l" using rl by (simp add: q_def field_simps)
    have lo: "1 / real l \<le> real d / real l" using d1 rl by (simp add: divide_right_mono)
    have "real d \<le> real l - 1" using dl l0 by (simp add: of_nat_diff)
    then have "real d / real l \<le> (real l - 1) / real l" using rl by (simp add: divide_right_mono)
    also have "\<dots> = 1 - 1 / real l" using rl by (simp add: field_simps)
    finally have hi: "real d / real l \<le> 1 - 1 / real l" .
    have t0: "int t \<noteq> 0" using False by (cases "t = 0") simp_all
    have tb: "\<bar>int t\<bar> < 2 ^ 52" using t by simp
    from fl_quotient_error[OF t0 tb l0 lb] obtain r where r: "fl q = Fin r"
      and e: "\<bar>r - q\<bar> < 1 / (2 * real l)" by (auto simp: q_def)
    have half: "1 / (2 * real l) \<le> 1 / real l" using rl by (simp add: frac_le)
    have m0: "(0::real) \<le> real m" by simp
    have r1: "real m < r" using qm lo e half by linarith
    have r2: "r < real m + 1" using qm hi e half by linarith
    have q1: "real m < q" using qm lo rl by (simp add: less_le_trans[OF _ lo])
    have il: "0 < 1 / real l" using rl by simp
    have q2: "q \<le> real m + 1" using qm hi il by linarith
    have cr: "\<lceil>r\<rceil> = int m + 1"
      by (rule ceiling_unique) (use r1 r2 in simp_all)
    have cq: "\<lceil>q\<rceil> = int m + 1"
      by (rule ceiling_unique) (use q1 q2 in simp_all)
    have "0 < r" using r1 m0 by linarith
    moreover have "0 < q" using q1 m0 by linarith
    ultimately show ?thesis using r cr cq by simp
  qed
  then show ?thesis by (simp only: dv q_def)
qed

lemma set_Array_from_Set_aux:
  "set (foldl (\<lambda>acc x. if x \<in> set acc then acc else acc @ [x]) acc xs) = set acc \<union> set xs"
  by (induction xs arbitrary: acc) auto

lemma distinct_Array_from_Set_aux:
  "distinct acc \<Longrightarrow> distinct (foldl (\<lambda>acc x. if x \<in> set acc then acc else acc @ [x]) acc xs)"
  by (induction xs arbitrary: acc) auto

lemma set_Array_from_Set: "set (Array_from_Set xs) = set xs"
  by (simp add: Array_from_Set_def set_Array_from_Set_aux)

lemma distinct_Array_from_Set: "distinct (Array_from_Set xs)"
  by (simp add: Array_from_Set_def distinct_Array_from_Set_aux)

lemma first_max_foldl:
  fixes key :: "'a \<Rightarrow> int"
  shows "\<exists>i<length (x # xs).
     foldl (\<lambda>acc y. if key y > key acc then y else acc) x xs = (x # xs) ! i \<and>
     (\<forall>j<length (x # xs). key ((x # xs) ! j) \<le> key ((x # xs) ! i)) \<and>
     (\<forall>j<i. key ((x # xs) ! j) < key ((x # xs) ! i))"
proof (induction xs rule: rev_induct)
  case Nil
  then show ?case by simp
next
  case (snoc y xs)
  let ?f = "\<lambda>acc y. if key y > key acc then y else acc"
  from snoc obtain i where i: "i < length (x # xs)"
    and m: "foldl ?f x xs = (x # xs) ! i"
    and le: "\<forall>j<length (x # xs). key ((x # xs) ! j) \<le> key ((x # xs) ! i)"
    and lt: "\<forall>j<i. key ((x # xs) ! j) < key ((x # xs) ! i)"
    by blast
  have nth_old: "\<And>j. j < length (x # xs) \<Longrightarrow> (x # xs @ [y]) ! j = (x # xs) ! j"
    by (metis append_Cons nth_append)
  have nth_new: "(x # xs @ [y]) ! length (x # xs) = y"
    by (metis append_Cons nth_append_length)
  show ?case
  proof (cases "key y > key ((x # xs) ! i)")
    case True
    have "foldl ?f x (xs @ [y]) = (x # xs @ [y]) ! length (x # xs)"
      using True m nth_new by simp
    moreover have "\<forall>j<length (x # xs @ [y]). key ((x # xs @ [y]) ! j) \<le> key ((x # xs @ [y]) ! length (x # xs))"
    proof (intro allI impI)
      fix j assume "j < length (x # xs @ [y])"
      then consider "j < length (x # xs)" | "j = length (x # xs)" by fastforce
      then show "key ((x # xs @ [y]) ! j) \<le> key ((x # xs @ [y]) ! length (x # xs))"
      proof cases
        case 1
        then show ?thesis using le True nth_old[OF 1] nth_new by (metis less_le_not_le linorder_le_cases order_trans)
      next
        case 2
        then show ?thesis by simp
      qed
    qed
    moreover have "\<forall>j<length (x # xs). key ((x # xs @ [y]) ! j) < key ((x # xs @ [y]) ! length (x # xs))"
    proof (intro allI impI)
      fix j assume j: "j < length (x # xs)"
      have "key ((x # xs) ! j) \<le> key ((x # xs) ! i)" using le j by blast
      then show "key ((x # xs @ [y]) ! j) < key ((x # xs @ [y]) ! length (x # xs))"
        using True nth_old[OF j] nth_new by simp
    qed
    ultimately show ?thesis
      by (intro exI[of _ "length (x # xs)"]) simp
  next
    case False
    have "foldl ?f x (xs @ [y]) = (x # xs @ [y]) ! i"
      using False m nth_old[OF i] by simp
    moreover have "\<forall>j<length (x # xs @ [y]). key ((x # xs @ [y]) ! j) \<le> key ((x # xs @ [y]) ! i)"
    proof (intro allI impI)
      fix j assume "j < length (x # xs @ [y])"
      then consider "j < length (x # xs)" | "j = length (x # xs)" by fastforce
      then show "key ((x # xs @ [y]) ! j) \<le> key ((x # xs @ [y]) ! i)"
      proof cases
        case 1
        then show ?thesis using le nth_old[OF 1] nth_old[OF i] by simp
      next
        case 2
        then show ?thesis using False nth_new nth_old[OF i] by simp
      qed
    qed
    moreover have "\<forall>j<i. key ((x # xs @ [y]) ! j) < key ((x # xs @ [y]) ! i)"
    proof (intro allI impI)
      fix j assume j: "j < i"
      then have j': "j < length (x # xs)" using i by simp
      show "key ((x # xs @ [y]) ! j) < key ((x # xs @ [y]) ! i)"
        using lt j nth_old[OF j'] nth_old[OF i] by simp
    qed
    ultimately show ?thesis using i
      by (intro exI[of _ i]) simp
  qed
qed












section \<open>The search handler: the claims\<close>






text \<open>
  C3. The filter object the handler builds holds a condition for exactly the
  parameters that are present and not empty: for \<open>search\<close> a case-insensitive
  containment in the title, for \<open>genre\<close> an equality with the genre, for \<open>authorName\<close> a
  case-insensitive containment in the name of the author. An absent or empty parameter
  adds no condition. Read by the store, the object holds of a row exactly when all
  these conditions do.
\<close>

theorem C3_filter_composition:
  "title_filter (where_of sp) =
     (case get_param sp (lit ''search'') of
        None \<Rightarrow> None
      | Some s \<Rightarrow> if s = [] then None else Some (Contains s Insensitive)) \<and>
   genre_filter (where_of sp) =
     (case get_param sp (lit ''genre'') of
        None \<Rightarrow> None
      | Some s \<Rightarrow> if s = [] then None else Some (Equals s)) \<and>
   author_filter (where_of sp) =
     (case get_param sp (lit ''authorName'') of
        None \<Rightarrow> None
      | Some s \<Rightarrow> if s = [] then None
                  else Some \<lparr>name_filter = Some (Contains s Insensitive)\<rparr>) \<and>
   (where_holds cf (where_of sp) row \<longleftrightarrow>
      (search_of sp \<noteq> [] \<longrightarrow> has_substring (cf (row_title row)) (cf (search_of sp))) \<and>
      (genre_of sp \<noteq> [] \<longrightarrow> row_genre row = Some (genre_of sp)) \<and>
      (authorName_of sp \<noteq> [] \<longrightarrow>
         has_substring (cf (row_author_name row)) (cf (authorName_of sp))))"
proof (intro conjI)
  show "title_filter (where_of sp) =
     (case get_param sp (lit ''search'') of
        None \<Rightarrow> None
      | Some s \<Rightarrow> if s = [] then None else Some (Contains s Insensitive))"
    by (simp add: where_of_def Let_def search_of_def or_else_def split: option.splits)
  show "genre_filter (where_of sp) =
     (case get_param sp (lit ''genre'') of
        None \<Rightarrow> None
      | Some s \<Rightarrow> if s = [] then None else Some (Equals s))"
    by (simp add: where_of_def Let_def genre_of_def or_else_def split: option.splits)
  show "author_filter (where_of sp) =
     (case get_param sp (lit ''authorName'') of
        None \<Rightarrow> None
      | Some s \<Rightarrow> if s = [] then None
                  else Some \<lparr>name_filter = Some (Contains s Insensitive)\<rparr>)"
    by (simp add: where_of_def Let_def authorName_of_def or_else_def split: option.splits)
  show "where_holds cf (where_of sp) row \<longleftrightarrow>
      (search_of sp \<noteq> [] \<longrightarrow> has_substring (cf (row_title row)) (cf (search_of sp))) \<and>
      (genre_of sp \<noteq> [] \<longrightarrow> row_genre row = Some (genre_of sp)) \<and>
      (authorName_of sp \<noteq> [] \<longrightarrow>
         has_substring (cf (row_author_name row)) (cf (authorName_of sp)))"
    by (cases "row_genre row")
       (auto simp: where_holds_def present_holds_def where_of_def Let_def)
qed

theorem C3_witness:
  "title_filter (where_of [(lit ''search'', lit ''ab''), (lit ''genre'', [])]) =
     Some (Contains (lit ''ab'') Insensitive) \<and>
   genre_filter (where_of [(lit ''search'', lit ''ab''), (lit ''genre'', [])]) = None \<and>
   author_filter (where_of [(lit ''search'', lit ''ab''), (lit ''genre'', [])]) = None \<and>
   where_holds (\<lambda>s. s) (where_of [(lit ''search'', lit ''ab''), (lit ''genre'', [])])
     \<lparr>row_title = lit ''cab'', row_genre = None, row_author_name = lit ''Ann''\<rparr> \<and>
   \<not> where_holds (\<lambda>s. s) (where_of [(lit ''search'', lit ''ab''), (lit ''genre'', [])])
     \<lparr>row_title = lit ''cba'', row_genre = None, row_author_name = lit ''Ann''\<rparr>"
proof -
  let ?sp = "[(lit ''search'', lit ''ab''), (lit ''genre'', [])]"
  have s: "get_param ?sp (lit ''search'') = Some (lit ''ab'')" by code_simp
  have g: "get_param ?sp (lit ''genre'') = Some []" by code_simp
  have a: "get_param ?sp (lit ''authorName'') = None" by code_simp
  have ne: "lit ''ab'' \<noteq> []" by (simp add: lit_def)
  have vals: "search_of ?sp = lit ''ab''" "genre_of ?sp = []" "authorName_of ?sp = []"
    using s g a ne by (simp_all add: search_of_def genre_of_def authorName_of_def or_else_def)
  have sub: "has_substring (lit ''cab'') (lit ''ab'')" "\<not> has_substring (lit ''cba'') (lit ''ab'')"
    by (simp_all add: lit_def)
  from C3_filter_composition
      [of ?sp "\<lambda>s. s" "\<lparr>row_title = lit ''cab'', row_genre = None, row_author_name = lit ''Ann''\<rparr>"]
    C3_filter_composition
      [of ?sp "\<lambda>s. s" "\<lparr>row_title = lit ''cba'', row_genre = None, row_author_name = lit ''Ann''\<rparr>"]
  show ?thesis
    unfolding s g a vals using ne sub by simp
qed

text \<open>
  C4. The effective sort field is the requested \<open>sortBy\<close> when that is \<open>title\<close>,
  \<open>publishedYear\<close> or \<open>createdAt\<close>, and \<open>createdAt\<close> otherwise; the effective order is the
  requested \<open>order\<close> when that is \<open>asc\<close> or \<open>desc\<close>, and \<open>desc\<close> otherwise. These two are
  what the handler passes to the store as \<open>orderBy\<close>, and the handler answers with an
  error only when a query of the store is rejected.
\<close>

theorem C4_sort_normalisation:
  "sortField_of sp =
     (case get_param sp (lit ''sortBy'') of
        None \<Rightarrow> lit ''createdAt''
      | Some s \<Rightarrow> if s \<in> {lit ''title'', lit ''publishedYear'', lit ''createdAt''} then s
                  else lit ''createdAt'') \<and>
   sortOrder_of sp =
     (case get_param sp (lit ''order'') of
        None \<Rightarrow> lit ''desc''
      | Some s \<Rightarrow> if s \<in> {lit ''asc'', lit ''desc''} then s else lit ''desc'') \<and>
   arg_orderBy (findMany_args sp) = (sortField_of sp, sortOrder_of sp) \<and>
   sortField_of sp \<in> {lit ''title'', lit ''publishedYear'', lit ''createdAt''} \<and>
   sortOrder_of sp \<in> {lit ''asc'', lit ''desc''} \<and>
   (\<forall>status. GET_search store sp = Error_status status \<longrightarrow>
      count_books store (where_of sp) = Rejected \<or>
      findMany_rows store (findMany_args sp) = Rejected)"
proof (intro conjI allI impI)
  show "sortField_of sp =
     (case get_param sp (lit ''sortBy'') of
        None \<Rightarrow> lit ''createdAt''
      | Some s \<Rightarrow> if s \<in> {lit ''title'', lit ''publishedYear'', lit ''createdAt''} then s
                  else lit ''createdAt'')"
    by (auto simp: sortField_of_def sortBy_of_def validSortFields_def or_else_def lit_def
        split: option.splits)
  show "sortOrder_of sp =
     (case get_param sp (lit ''order'') of
        None \<Rightarrow> lit ''desc''
      | Some s \<Rightarrow> if s \<in> {lit ''asc'', lit ''desc''} then s else lit ''desc'')"
    by (auto simp: sortOrder_of_def order_of_def or_else_def lit_def split: option.splits)
  show "arg_orderBy (findMany_args sp) = (sortField_of sp, sortOrder_of sp)"
    by (simp add: findMany_args_def)
  show "sortField_of sp \<in> {lit ''title'', lit ''publishedYear'', lit ''createdAt''}"
    by (auto simp: sortField_of_def validSortFields_def)
  show "sortOrder_of sp \<in> {lit ''asc'', lit ''desc''}"
    by (simp add: sortOrder_of_def)
next
  fix status
  assume "GET_search store sp = Error_status status"
  then show "count_books store (where_of sp) = Rejected \<or>
      findMany_rows store (findMany_args sp) = Rejected"
    by (auto simp: GET_search_def Let_def split: outcome.splits)
qed

theorem C4_witness:
  "sortField_of [(lit ''sortBy'', lit ''invalidField''), (lit ''order'', lit ''up'')] = lit ''createdAt'' \<and>
   sortOrder_of [(lit ''sortBy'', lit ''invalidField''), (lit ''order'', lit ''up'')] = lit ''desc'' \<and>
   sortField_of [(lit ''sortBy'', lit ''title''), (lit ''order'', lit ''asc'')] = lit ''title'' \<and>
   sortOrder_of [(lit ''sortBy'', lit ''title''), (lit ''order'', lit ''asc'')] = lit ''asc'' \<and>
   GET_search \<lparr>count_books = (\<lambda>w. Resolved 0), findMany_rows = (\<lambda>a. Resolved ([] :: unit list))\<rparr>
     [(lit ''sortBy'', lit ''invalidField''), (lit ''order'', lit ''up'')] =
   Json200
     \<lparr>data = [],
      pagination =
        \<lparr>page = Fin 1, limit = Fin 10, total = 0, totalPages = Fin 0,
         hasNext = False, hasPrev = False\<rparr>\<rparr>"
proof -
  let ?bad = "[(lit ''sortBy'', lit ''invalidField''), (lit ''order'', lit ''up'')]"
  let ?good = "[(lit ''sortBy'', lit ''title''), (lit ''order'', lit ''asc'')]"
  let ?store = "\<lparr>count_books = (\<lambda>w. Resolved 0), findMany_rows = (\<lambda>a. Resolved ([] :: unit list))\<rparr>"
  have b: "get_param ?bad (lit ''sortBy'') = Some (lit ''invalidField'')"
    "get_param ?bad (lit ''order'') = Some (lit ''up'')"
    by code_simp+
  have g: "get_param ?good (lit ''sortBy'') = Some (lit ''title'')"
    "get_param ?good (lit ''order'') = Some (lit ''asc'')"
    by code_simp+
  have n: "lit ''invalidField'' \<notin> {lit ''title'', lit ''publishedYear'', lit ''createdAt''}"
    "lit ''up'' \<notin> {lit ''asc'', lit ''desc''}"
    by (simp_all add: lit_def)
  have r: "GET_search ?store ?bad =
     Json200
       \<lparr>data = [],
        pagination =
          \<lparr>page = Fin 1, limit = Fin 10, total = 0, totalPages = Fin 0,
           hasNext = False, hasPrev = False\<rparr>\<rparr>"
    by code_simp
  from C4_sort_normalisation[of ?bad ?store] C4_sort_normalisation[of ?good ?store]
  show ?thesis
    unfolding b g r using n by simp
qed

section \<open>The statistics handler: what it computes\<close>

text \<open>The statistics of a book list, field by field; no TypeError arises.\<close>

lemma compute_stats_eq:
  "compute_stats a books = Some
     \<lparr>authorId = author_id a, authorName = author_name a,
      totalBooks = length books,
      firstBook = (case filter (\<lambda>book. publishedYear book \<noteq> None) books of
                     [] \<Rightarrow> None | b # bs \<Rightarrow> Some (title b, publishedYear b)),
      latestBook = (case filter (\<lambda>book. publishedYear book \<noteq> None) books of
                     [] \<Rightarrow> None | b # bs \<Rightarrow> Some (title (last (b # bs)), publishedYear (last (b # bs)))),
      averagePages = (case filter (\<lambda>book. pages book \<noteq> None) books of
                     [] \<Rightarrow> Fin 0
                   | b # bs \<Rightarrow> Math_round (js_div
                       (foldl (\<lambda>sum book. js_add sum (Fin (of_int (pages_or_0 book))))
                          (Fin 0) (b # bs))
                       (Fin (of_nat (length (b # bs)))))),
      genres = sort (Array_from_Set (map (\<lambda>book. the (genre book)) (filter has_genre books))),
      longestBook = (case filter (\<lambda>book. pages book \<noteq> None) books of
                     [] \<Rightarrow> None
                   | b # bs \<Rightarrow> Some (title (foldl (\<lambda>max book. if pages_or_0 book > pages_or_0 max then book else max) b bs),
                                     pages (foldl (\<lambda>max book. if pages_or_0 book > pages_or_0 max then book else max) b bs))),
      shortestBook = (case filter (\<lambda>book. pages book \<noteq> None) books of
                     [] \<Rightarrow> None
                   | b # bs \<Rightarrow> Some (title (foldl (\<lambda>min book. if pages_or_0 book < pages_or_0 min then book else min) b bs),
                                     pages (foldl (\<lambda>min book. if pages_or_0 book < pages_or_0 min then book else min) b bs)))\<rparr>"
  unfolding compute_stats_def Let_def
  by (cases "filter (\<lambda>book. publishedYear book \<noteq> None) books";
      cases "filter (\<lambda>book. pages book \<noteq> None) books")
     (simp_all add: at_index_def last_conv_nth)

lemma GET_stats_resolved:
  assumes "findUnique store i = Resolved (Some a)"
    and "findMany_books store i = Resolved books"
  shows "\<exists>r. compute_stats a books = Some r \<and> GET_stats store i = Json200 r"
proof (cases "books = []")
  case True
  have "compute_stats a [] = Some
     \<lparr>authorId = author_id a, authorName = author_name a,
       totalBooks = 0, firstBook = None, latestBook = None,
       averagePages = Fin 0, genres = [],
       longestBook = None, shortestBook = None\<rparr>"
    by (simp add: compute_stats_eq Array_from_Set_def)
  with True assms show ?thesis by (simp add: GET_stats_def)
next
  case False
  with assms show ?thesis by (simp add: GET_stats_def compute_stats_eq)
qed

lemma stats_firstBook:
  "compute_stats a books = Some r \<Longrightarrow>
   firstBook r = (case filter (\<lambda>book. publishedYear book \<noteq> None) books of
                    [] \<Rightarrow> None | b # bs \<Rightarrow> Some (title b, publishedYear b))"
  unfolding compute_stats_eq by auto

lemma stats_latestBook:
  "compute_stats a books = Some r \<Longrightarrow>
   latestBook r = (case filter (\<lambda>book. publishedYear book \<noteq> None) books of
                    [] \<Rightarrow> None
                  | b # bs \<Rightarrow> Some (title (last (b # bs)), publishedYear (last (b # bs))))"
  unfolding compute_stats_eq by auto

lemma stats_averagePages:
  "compute_stats a books = Some r \<Longrightarrow>
   averagePages r = (case filter (\<lambda>book. pages book \<noteq> None) books of
                     [] \<Rightarrow> Fin 0
                   | b # bs \<Rightarrow> Math_round (js_div
                       (foldl (\<lambda>sum book. js_add sum (Fin (of_int (pages_or_0 book))))
                          (Fin 0) (b # bs))
                       (Fin (of_nat (length (b # bs))))))"
  unfolding compute_stats_eq by auto

lemma stats_genres:
  "compute_stats a books = Some r \<Longrightarrow>
   genres r = sort (Array_from_Set (map (\<lambda>book. the (genre book)) (filter has_genre books)))"
  unfolding compute_stats_eq by auto

lemma stats_longestBook:
  "compute_stats a books = Some r \<Longrightarrow>
   longestBook r = (case filter (\<lambda>book. pages book \<noteq> None) books of
                     [] \<Rightarrow> None
                   | b # bs \<Rightarrow> Some (title (foldl (\<lambda>max book. if pages_or_0 book > pages_or_0 max then book else max) b bs),
                                     pages (foldl (\<lambda>max book. if pages_or_0 book > pages_or_0 max then book else max) b bs)))"
  unfolding compute_stats_eq by auto

lemma stats_shortestBook:
  "compute_stats a books = Some r \<Longrightarrow>
   shortestBook r = (case filter (\<lambda>book. pages book \<noteq> None) books of
                     [] \<Rightarrow> None
                   | b # bs \<Rightarrow> Some (title (foldl (\<lambda>min book. if pages_or_0 book < pages_or_0 min then book else min) b bs),
                                     pages (foldl (\<lambda>min book. if pages_or_0 book < pages_or_0 min then book else min) b bs)))"
  unfolding compute_stats_eq by auto

lemma map_abs_pages_or_0_filter:
  "map (\<lambda>b. \<bar>pages_or_0 b\<bar>) (filter (\<lambda>book. pages book \<noteq> None) bs) =
   map abs (List.map_filter pages bs)"
  by (induction bs) (auto simp: List.map_filter_simps pages_or_0_def split: option.splits)

lemma json_averagePages:
  assumes c: "compute_stats a books = Some r"
    and bound: "sum_list (map abs (List.map_filter pages books)) < 2 ^ 52"
  shows "json_number (averagePages r) =
     Some (if List.map_filter pages books = [] then 0
           else of_int (round (of_int (sum_list (List.map_filter pages books)) /
                               of_nat (length (List.map_filter pages books)) :: real)))"
proof -
  define ps where "ps = List.map_filter pages books"
  define pb where "pb = filter (\<lambda>book. pages book \<noteq> None) books"
  have len: "length pb = length ps"
    by (simp add: ps_def pb_def List.map_filter_def)
  have m1: "map (\<lambda>b. \<bar>pages_or_0 b\<bar>) pb = map abs ps"
    unfolding pb_def ps_def by (rule map_abs_pages_or_0_filter)
  have m2: "map pages_or_0 pb = ps"
    unfolding pb_def ps_def by (rule map_pages_or_0_filter)
  have "\<bar>0::int\<bar> + sum_list (map (\<lambda>b. \<bar>pages_or_0 b\<bar>) pb) \<le> 2 ^ 53"
    unfolding m1 using bound by (simp add: ps_def)
  from foldl_js_add_exact[OF this]
  have sum: "foldl (\<lambda>sum book. js_add sum (Fin (of_int (pages_or_0 book)))) (Fin 0) pb =
      Fin (of_int (sum_list ps))"
    by (simp add: m2)
  have "json_number (averagePages r) =
          Some (if ps = [] then 0
                else of_int (round (of_int (sum_list ps) / of_nat (length ps) :: real)))"
  proof (cases pb)
    case Nil
    then have "ps = []" using len by simp
    with Nil stats_averagePages[OF c] show ?thesis by (simp add: pb_def)
  next
    case (Cons b bs)
    then have n: "length ps = length (b # bs)" using len by simp
    then have ne: "ps \<noteq> []" by auto
    have pos: "(0::real) < of_nat (length (b # bs))" by simp
    have "averagePages r = Math_round (js_div
        (foldl (\<lambda>sum book. js_add sum (Fin (of_int (pages_or_0 book)))) (Fin 0) pb)
        (Fin (of_nat (length (b # bs)))))"
      using stats_averagePages[OF c] Cons unfolding pb_def[symmetric] by simp
    then have "averagePages r = Math_round (Fin (of_int (sum_list ps) / of_nat (length (b # bs))))"
      by (simp only: sum js_div_Fin[OF pos])
    then show ?thesis using ne n by (simp only: json_Math_round_Fin if_False)
  qed
  then show ?thesis by (simp only: ps_def)
qed

lemma length_le_sum_list:
  fixes ps :: "int list"
  shows "\<forall>p\<in>set ps. 1 \<le> p \<Longrightarrow> int (length ps) \<le> sum_list ps"
  by (induction ps) auto

lemma sorted_wrt_hd_rel:
  "sorted_wrt P xs \<Longrightarrow> x \<in> set xs \<Longrightarrow> x = hd xs \<or> P (hd xs) x"
  by (cases xs) auto

lemma sorted_wrt_last_rel:
  "sorted_wrt P xs \<Longrightarrow> x \<in> set xs \<Longrightarrow> x = last xs \<or> P x (last xs)"
proof (induction xs)
  case Nil
  then show ?case by simp
next
  case (Cons a xs)
  show ?case
  proof (cases "xs = []")
    case True
    with Cons.prems show ?thesis by simp
  next
    case False
    then have l: "last (a # xs) = last xs" by simp
    have lin: "last xs \<in> set xs" using False by simp
    from Cons.prems(2) consider "x = a" | "x \<in> set xs" by auto
    then show ?thesis
    proof cases
      case 1
      then show ?thesis using Cons.prems(1) lin l by auto
    next
      case 2
      then show ?thesis using Cons.IH Cons.prems(1) l by auto
    qed
  qed
qed

lemma year_before_Some:
  "year_before b c \<Longrightarrow> publishedYear b = Some x \<Longrightarrow> publishedYear c = Some y \<Longrightarrow> x \<le> y"
  by (simp add: year_before_def)

lemma first_min_foldl:
  fixes key :: "'a \<Rightarrow> int"
  shows "\<exists>i<length (x # xs).
     foldl (\<lambda>acc y. if key y < key acc then y else acc) x xs = (x # xs) ! i \<and>
     (\<forall>j<length (x # xs). key ((x # xs) ! i) \<le> key ((x # xs) ! j)) \<and>
     (\<forall>j<i. key ((x # xs) ! i) < key ((x # xs) ! j))"
  using first_max_foldl[of x xs "\<lambda>b. - key b"] by simp

lemma nth_filter_pages:
  "j < length (filter (\<lambda>book. pages book \<noteq> None) books) \<Longrightarrow>
   \<exists>q. pages (filter (\<lambda>book. pages book \<noteq> None) books ! j) = Some q \<and>
       pages_or_0 (filter (\<lambda>book. pages book \<noteq> None) books ! j) = q"
proof -
  assume "j < length (filter (\<lambda>book. pages book \<noteq> None) books)"
  then have "filter (\<lambda>book. pages book \<noteq> None) books ! j
      \<in> set (filter (\<lambda>book. pages book \<noteq> None) books)"
    by (rule nth_mem)
  then obtain q where "pages (filter (\<lambda>book. pages book \<noteq> None) books ! j) = Some q"
    by auto
  then show ?thesis by (auto simp: pages_or_0_def)
qed


lemma set_genre_values:
  "set (map (\<lambda>book. the (genre book)) (filter has_genre books)) =
   {g. g \<noteq> [] \<and> (\<exists>b\<in>set books. genre b = Some g)}"
proof (intro set_eqI iffI)
  fix g assume "g \<in> set (map (\<lambda>book. the (genre book)) (filter has_genre books))"
  then obtain b where "b \<in> set books" "has_genre b" "g = the (genre b)" by auto
  then show "g \<in> {g. g \<noteq> [] \<and> (\<exists>b\<in>set books. genre b = Some g)}"
    by (auto simp: has_genre_def split: option.splits)
next
  fix g assume "g \<in> {g. g \<noteq> [] \<and> (\<exists>b\<in>set books. genre b = Some g)}"
  then obtain b where b: "b \<in> set books" "genre b = Some g" "g \<noteq> []" by auto
  then have "has_genre b" "g = the (genre b)" by (simp_all add: has_genre_def)
  with b(1) show "g \<in> set (map (\<lambda>book. the (genre book)) (filter has_genre books))"
    by (simp add: image_iff) blast
qed


section \<open>The statistics handler: the claims\<close>

text \<open>
  C5. For a non-empty book list in ascending order of publishedYear, the books without
  a year last, firstBook and latestBook are computed from the books with a defined
  year only: they are the first and the last of these in the order of the list, and
  both are null when no book has a year. With that order every defined year lies
  between the year of firstBook and the year of latestBook. For defined years
  2001 and 2010 the years are 2001 and 2010.
\<close>

theorem C5_first_and_latest_book:
  assumes "findUnique store i = Resolved (Some a)"
    and "findMany_books store i = Resolved books"
    and "books \<noteq> []"
    and "year_ascending books"
  shows "\<exists>r. GET_stats store i = Json200 r \<and>
     (let ys = filter (\<lambda>book. publishedYear book \<noteq> None) books in
        firstBook r = (if ys = [] then None else Some (title (hd ys), publishedYear (hd ys))) \<and>
        latestBook r = (if ys = [] then None else Some (title (last ys), publishedYear (last ys))) \<and>
        (\<forall>b\<in>set books. \<forall>y. publishedYear b = Some y \<longrightarrow>
           (\<exists>t f u l. firstBook r = Some (t, Some f) \<and> latestBook r = Some (u, Some l) \<and>
              f \<le> y \<and> y \<le> l)))"
proof -
  define ys where "ys = filter (\<lambda>book. publishedYear book \<noteq> None) books"
  from GET_stats_resolved[OF assms(1,2)] obtain r
    where c: "compute_stats a books = Some r" and g: "GET_stats store i = Json200 r"
    by blast
  have first: "firstBook r = (if ys = [] then None else Some (title (hd ys), publishedYear (hd ys)))"
    using stats_firstBook[OF c] unfolding ys_def[symmetric] by (cases ys) auto
  have latest: "latestBook r = (if ys = [] then None else Some (title (last ys), publishedYear (last ys)))"
    using stats_latestBook[OF c] unfolding ys_def[symmetric] by (cases ys) auto
  have sorted_ys: "sorted_wrt year_before ys"
    using assms(4) by (simp add: ys_def year_ascending_def sorted_wrt_filter)
  have bounds: "\<exists>t f u l. firstBook r = Some (t, Some f) \<and> latestBook r = Some (u, Some l) \<and>
      f \<le> y \<and> y \<le> l"
    if b: "b \<in> set books" and y: "publishedYear b = Some y" for b y
  proof -
    have mem: "b \<in> set ys" using b y by (simp add: ys_def)
    then have ne: "ys \<noteq> []" by auto
    have "hd ys \<in> set ys" "last ys \<in> set ys" using ne by simp_all
    then obtain f l where f: "publishedYear (hd ys) = Some f" and l: "publishedYear (last ys) = Some l"
      by (auto simp: ys_def)
    have "f \<le> y"
      using sorted_wrt_hd_rel[OF sorted_ys mem] f y year_before_Some by fastforce
    moreover have "y \<le> l"
      using sorted_wrt_last_rel[OF sorted_ys mem] l y year_before_Some by fastforce
    ultimately show ?thesis using first latest ne f l by simp
  qed
  show ?thesis
    using g first latest bounds unfolding Let_def ys_def[symmetric] by blast
qed

theorem C5_witness:
  "year_ascending
     [\<lparr>book_id = lit ''b1'', title = lit ''One'', publishedYear = Some 2001, pages = Some 100, genre = None\<rparr>,
      \<lparr>book_id = lit ''b2'', title = lit ''Two'', publishedYear = Some 2010, pages = None, genre = None\<rparr>,
      \<lparr>book_id = lit ''b3'', title = lit ''Three'', publishedYear = None, pages = None, genre = None\<rparr>] \<and>
   (\<exists>r. GET_stats
       \<lparr>findUnique = (\<lambda>i. Resolved (Some \<lparr>author_id = lit ''a1'', author_name = lit ''Ann''\<rparr>)),
        findMany_books = (\<lambda>i. Resolved
          [\<lparr>book_id = lit ''b1'', title = lit ''One'', publishedYear = Some 2001, pages = Some 100, genre = None\<rparr>,
           \<lparr>book_id = lit ''b2'', title = lit ''Two'', publishedYear = Some 2010, pages = None, genre = None\<rparr>,
           \<lparr>book_id = lit ''b3'', title = lit ''Three'', publishedYear = None, pages = None, genre = None\<rparr>])\<rparr>
       (lit ''a1'') = Json200 r \<and>
      firstBook r = Some (lit ''One'', Some 2001) \<and>
      latestBook r = Some (lit ''Two'', Some 2010))"
  using C5_first_and_latest_book
    [of "\<lparr>findUnique = (\<lambda>i. Resolved (Some \<lparr>author_id = lit ''a1'', author_name = lit ''Ann''\<rparr>)),
         findMany_books = (\<lambda>i. Resolved
           [\<lparr>book_id = lit ''b1'', title = lit ''One'', publishedYear = Some 2001, pages = Some 100, genre = None\<rparr>,
            \<lparr>book_id = lit ''b2'', title = lit ''Two'', publishedYear = Some 2010, pages = None, genre = None\<rparr>,
            \<lparr>book_id = lit ''b3'', title = lit ''Three'', publishedYear = None, pages = None, genre = None\<rparr>])\<rparr>"
        "lit ''a1''"
        "\<lparr>author_id = lit ''a1'', author_name = lit ''Ann''\<rparr>"
        "[\<lparr>book_id = lit ''b1'', title = lit ''One'', publishedYear = Some 2001, pages = Some 100, genre = None\<rparr>,
          \<lparr>book_id = lit ''b2'', title = lit ''Two'', publishedYear = Some 2010, pages = None, genre = None\<rparr>,
          \<lparr>book_id = lit ''b3'', title = lit ''Three'', publishedYear = None, pages = None, genre = None\<rparr>]"]
  by (simp add: year_ascending_def year_before_def) blast

text \<open>
  C6, as stated: for every book list averagePages is the mean of the defined page
  counts, rounded to the nearest integer. The handler adds the page counts as doubles:
  for the page counts \<open>2^53\<close> and 1 the sum is rounded to \<open>2^53\<close> and averagePages is
  \<open>2^52\<close>, where the mean \<open>2^52 + 1/2\<close> rounds to \<open>2^52 + 1\<close>.
\<close>

theorem C6_counterexample:
  "GET_stats
       \<lparr>findUnique = (\<lambda>i. Resolved (Some \<lparr>author_id = lit ''a1'', author_name = lit ''Ann''\<rparr>)),
        findMany_books = (\<lambda>i. Resolved
          [\<lparr>book_id = lit ''b1'', title = lit ''A'', publishedYear = None, pages = Some 9007199254740992, genre = None\<rparr>,
           \<lparr>book_id = lit ''b2'', title = lit ''B'', publishedYear = None, pages = Some 1, genre = None\<rparr>])\<rparr>
       (lit ''a1'') =
     Json200 \<lparr>authorId = lit ''a1'', authorName = lit ''Ann'', totalBooks = 2,
       firstBook = None, latestBook = None, averagePages = Fin 4503599627370496,
       genres = [],
       longestBook = Some (lit ''A'', Some 9007199254740992),
       shortestBook = Some (lit ''B'', Some 1)\<rparr> \<and>
   round ((9007199254740992 + 1) / 2 :: real) = 4503599627370497"
proof -
  have r0: "fl 9007199254740992 = Fin 9007199254740992" by code_simp
  have r1: "fl 9007199254740993 = Fin 9007199254740992" by code_simp
  have sum: "js_add (js_add (Fin 0) (Fin 9007199254740992)) (Fin 1) = Fin 9007199254740992"
    by (simp add: r0 r1)
  show ?thesis
    by (simp add: GET_stats_def compute_stats_eq pages_or_0_def has_genre_def
        Array_from_Set_def sum js_div_def round_def del: js_add.simps)
qed

text \<open>
  C6, amended: for every book list whose defined page counts have absolute values
  that sum to less than \<open>2^52\<close>, averagePages is the mean of the defined page counts,
  rounded to the nearest integer (a tie going up), and 0 when no book has a page
  count. Only the page counts enter: a book with pages and no year contributes. Pages
  100, 200, 300 give 200, and a list without page counts gives 0.
\<close>

theorem C6_average_pages_amended:
  assumes "findUnique store i = Resolved (Some a)"
    and "findMany_books store i = Resolved books"
    and "sum_list (map abs (List.map_filter pages books)) < 2 ^ 52"
  shows "\<exists>r. GET_stats store i = Json200 r \<and>
     (let ps = List.map_filter pages books in
        json_number (averagePages r) =
          Some (if ps = [] then 0
                else of_int (round (of_int (sum_list ps) / of_nat (length ps) :: real))))"
proof -
  from GET_stats_resolved[OF assms(1,2)] obtain r
    where c: "compute_stats a books = Some r" and g: "GET_stats store i = Json200 r"
    by blast
  from g json_averagePages[OF c assms(3)] show ?thesis unfolding Let_def by blast
qed

theorem C6_witness:
  "(\<exists>r. GET_stats
       \<lparr>findUnique = (\<lambda>i. Resolved (Some \<lparr>author_id = lit ''a1'', author_name = lit ''Ann''\<rparr>)),
        findMany_books = (\<lambda>i. Resolved
          [\<lparr>book_id = lit ''b1'', title = lit ''One'', publishedYear = Some 2001, pages = Some 100, genre = None\<rparr>,
           \<lparr>book_id = lit ''b2'', title = lit ''Two'', publishedYear = None, pages = Some 200, genre = None\<rparr>,
           \<lparr>book_id = lit ''b3'', title = lit ''Three'', publishedYear = None, pages = None, genre = None\<rparr>,
           \<lparr>book_id = lit ''b4'', title = lit ''Four'', publishedYear = None, pages = Some 300, genre = None\<rparr>])\<rparr>
       (lit ''a1'') = Json200 r \<and>
      json_number (averagePages r) = Some 200) \<and>
   (\<exists>r. GET_stats
       \<lparr>findUnique = (\<lambda>i. Resolved (Some \<lparr>author_id = lit ''a1'', author_name = lit ''Ann''\<rparr>)),
        findMany_books = (\<lambda>i. Resolved
          [\<lparr>book_id = lit ''b1'', title = lit ''One'', publishedYear = Some 2001, pages = None, genre = None\<rparr>])\<rparr>
       (lit ''a1'') = Json200 r \<and>
      json_number (averagePages r) = Some 0)"
  using C6_average_pages_amended
    [of "\<lparr>findUnique = (\<lambda>i. Resolved (Some \<lparr>author_id = lit ''a1'', author_name = lit ''Ann''\<rparr>)),
         findMany_books = (\<lambda>i. Resolved
           [\<lparr>book_id = lit ''b1'', title = lit ''One'', publishedYear = Some 2001, pages = Some 100, genre = None\<rparr>,
            \<lparr>book_id = lit ''b2'', title = lit ''Two'', publishedYear = None, pages = Some 200, genre = None\<rparr>,
            \<lparr>book_id = lit ''b3'', title = lit ''Three'', publishedYear = None, pages = None, genre = None\<rparr>,
            \<lparr>book_id = lit ''b4'', title = lit ''Four'', publishedYear = None, pages = Some 300, genre = None\<rparr>])\<rparr>"
        "lit ''a1''"
        "\<lparr>author_id = lit ''a1'', author_name = lit ''Ann''\<rparr>"
        "[\<lparr>book_id = lit ''b1'', title = lit ''One'', publishedYear = Some 2001, pages = Some 100, genre = None\<rparr>,
          \<lparr>book_id = lit ''b2'', title = lit ''Two'', publishedYear = None, pages = Some 200, genre = None\<rparr>,
          \<lparr>book_id = lit ''b3'', title = lit ''Three'', publishedYear = None, pages = None, genre = None\<rparr>,
          \<lparr>book_id = lit ''b4'', title = lit ''Four'', publishedYear = None, pages = Some 300, genre = None\<rparr>]"]
    C6_average_pages_amended
    [of "\<lparr>findUnique = (\<lambda>i. Resolved (Some \<lparr>author_id = lit ''a1'', author_name = lit ''Ann''\<rparr>)),
         findMany_books = (\<lambda>i. Resolved
           [\<lparr>book_id = lit ''b1'', title = lit ''One'', publishedYear = Some 2001, pages = None, genre = None\<rparr>])\<rparr>"
        "lit ''a1''"
        "\<lparr>author_id = lit ''a1'', author_name = lit ''Ann''\<rparr>"
        "[\<lparr>book_id = lit ''b1'', title = lit ''One'', publishedYear = Some 2001, pages = None, genre = None\<rparr>]"]
  by (simp add: List.map_filter_simps round_def)

text \<open>
  C7. Over the books with a defined page count, in the order of the list, longestBook
  is a book of maximal and shortestBook a book of minimal page count, and each is the
  first book with that page count; both are null when no book has a page count.
\<close>

theorem C7_longest_and_shortest_book:
  assumes "findUnique store i = Resolved (Some a)"
    and "findMany_books store i = Resolved books"
  shows "\<exists>r. GET_stats store i = Json200 r \<and>
     (let pb = filter (\<lambda>book. pages book \<noteq> None) books in
        if pb = [] then longestBook r = None \<and> shortestBook r = None
        else
          (\<exists>k p. k < length pb \<and> pages (pb ! k) = Some p \<and>
             longestBook r = Some (title (pb ! k), Some p) \<and>
             (\<forall>j<length pb. \<exists>q. pages (pb ! j) = Some q \<and> q \<le> p) \<and>
             (\<forall>j<k. \<exists>q. pages (pb ! j) = Some q \<and> q < p)) \<and>
          (\<exists>k p. k < length pb \<and> pages (pb ! k) = Some p \<and>
             shortestBook r = Some (title (pb ! k), Some p) \<and>
             (\<forall>j<length pb. \<exists>q. pages (pb ! j) = Some q \<and> p \<le> q) \<and>
             (\<forall>j<k. \<exists>q. pages (pb ! j) = Some q \<and> p < q)))"
proof -
  define pb where "pb = filter (\<lambda>book. pages book \<noteq> None) books"
  from GET_stats_resolved[OF assms] obtain r
    where c: "compute_stats a books = Some r" and g: "GET_stats store i = Json200 r"
    by blast
  have defined: "\<exists>q. pages (pb ! j) = Some q \<and> pages_or_0 (pb ! j) = q" if "j < length pb" for j
    using that nth_filter_pages unfolding pb_def by blast
  show ?thesis
  proof (cases pb)
    case Nil
    then have "longestBook r = None" "shortestBook r = None"
      using stats_longestBook[OF c] stats_shortestBook[OF c] by (simp_all add: pb_def)
    with Nil g show ?thesis unfolding Let_def pb_def[symmetric] by simp
  next
    case (Cons b bs)
    let ?fmax = "\<lambda>max book. if pages_or_0 book > pages_or_0 max then book else max"
    let ?fmin = "\<lambda>min book. if pages_or_0 book < pages_or_0 min then book else min"
    have longest: "longestBook r = Some (title (foldl ?fmax b bs), pages (foldl ?fmax b bs))"
      using stats_longestBook[OF c] Cons by (simp add: pb_def)
    have shortest: "shortestBook r = Some (title (foldl ?fmin b bs), pages (foldl ?fmin b bs))"
      using stats_shortestBook[OF c] Cons by (simp add: pb_def)
    from first_max_foldl[of b bs pages_or_0] obtain k where k: "k < length pb"
      and km: "foldl ?fmax b bs = pb ! k"
      and kle: "\<forall>j<length pb. pages_or_0 (pb ! j) \<le> pages_or_0 (pb ! k)"
      and klt: "\<forall>j<k. pages_or_0 (pb ! j) < pages_or_0 (pb ! k)"
      unfolding Cons by blast
    from defined[OF k] obtain p where p: "pages (pb ! k) = Some p" "pages_or_0 (pb ! k) = p"
      by blast
    have kle': "\<forall>j<length pb. \<exists>q. pages (pb ! j) = Some q \<and> q \<le> p"
    proof (intro allI impI)
      fix j assume j: "j < length pb"
      from defined[OF j] kle j p(2) show "\<exists>q. pages (pb ! j) = Some q \<and> q \<le> p" by auto
    qed
    have klt': "\<forall>j<k. \<exists>q. pages (pb ! j) = Some q \<and> q < p"
    proof (intro allI impI)
      fix j assume j: "j < k"
      then have "j < length pb" using k by simp
      from defined[OF this] klt j p(2) show "\<exists>q. pages (pb ! j) = Some q \<and> q < p" by auto
    qed
    have "longestBook r = Some (title (pb ! k), Some p)" using longest km p(1) by simp
    with k p(1) kle' klt'
    have max_part: "\<exists>k p. k < length pb \<and> pages (pb ! k) = Some p \<and>
             longestBook r = Some (title (pb ! k), Some p) \<and>
             (\<forall>j<length pb. \<exists>q. pages (pb ! j) = Some q \<and> q \<le> p) \<and>
             (\<forall>j<k. \<exists>q. pages (pb ! j) = Some q \<and> q < p)"
      by blast
    from first_min_foldl[of b bs pages_or_0] obtain m where m: "m < length pb"
      and mm: "foldl ?fmin b bs = pb ! m"
      and mle: "\<forall>j<length pb. pages_or_0 (pb ! m) \<le> pages_or_0 (pb ! j)"
      and mlt: "\<forall>j<m. pages_or_0 (pb ! m) < pages_or_0 (pb ! j)"
      unfolding Cons by blast
    from defined[OF m] obtain s where s: "pages (pb ! m) = Some s" "pages_or_0 (pb ! m) = s"
      by blast
    have mle': "\<forall>j<length pb. \<exists>q. pages (pb ! j) = Some q \<and> s \<le> q"
    proof (intro allI impI)
      fix j assume j: "j < length pb"
      from defined[OF j] mle j s(2) show "\<exists>q. pages (pb ! j) = Some q \<and> s \<le> q" by auto
    qed
    have mlt': "\<forall>j<m. \<exists>q. pages (pb ! j) = Some q \<and> s < q"
    proof (intro allI impI)
      fix j assume j: "j < m"
      then have "j < length pb" using m by simp
      from defined[OF this] mlt j s(2) show "\<exists>q. pages (pb ! j) = Some q \<and> s < q" by auto
    qed
    have "shortestBook r = Some (title (pb ! m), Some s)" using shortest mm s(1) by simp
    with m s(1) mle' mlt'
    have min_part: "\<exists>k p. k < length pb \<and> pages (pb ! k) = Some p \<and>
             shortestBook r = Some (title (pb ! k), Some p) \<and>
             (\<forall>j<length pb. \<exists>q. pages (pb ! j) = Some q \<and> p \<le> q) \<and>
             (\<forall>j<k. \<exists>q. pages (pb ! j) = Some q \<and> p < q)"
      by blast
    have "pb \<noteq> []" using Cons by simp
    with g max_part min_part show ?thesis
      unfolding Let_def pb_def[symmetric] by auto
  qed
qed

theorem C7_witness:
  "\<exists>r. GET_stats
       \<lparr>findUnique = (\<lambda>i. Resolved (Some \<lparr>author_id = lit ''a1'', author_name = lit ''Ann''\<rparr>)),
        findMany_books = (\<lambda>i. Resolved
          [\<lparr>book_id = lit ''b1'', title = lit ''A'', publishedYear = None, pages = Some 100, genre = None\<rparr>,
           \<lparr>book_id = lit ''b2'', title = lit ''B'', publishedYear = None, pages = Some 300, genre = None\<rparr>,
           \<lparr>book_id = lit ''b3'', title = lit ''C'', publishedYear = None, pages = Some 300, genre = None\<rparr>,
           \<lparr>book_id = lit ''b4'', title = lit ''D'', publishedYear = None, pages = Some 100, genre = None\<rparr>,
           \<lparr>book_id = lit ''b5'', title = lit ''E'', publishedYear = None, pages = None, genre = None\<rparr>])\<rparr>
       (lit ''a1'') = Json200 r \<and>
      longestBook r = Some (lit ''B'', Some 300) \<and>
      shortestBook r = Some (lit ''A'', Some 100)"
  using C7_longest_and_shortest_book
    [of "\<lparr>findUnique = (\<lambda>i. Resolved (Some \<lparr>author_id = lit ''a1'', author_name = lit ''Ann''\<rparr>)),
         findMany_books = (\<lambda>i. Resolved
           [\<lparr>book_id = lit ''b1'', title = lit ''A'', publishedYear = None, pages = Some 100, genre = None\<rparr>,
            \<lparr>book_id = lit ''b2'', title = lit ''B'', publishedYear = None, pages = Some 300, genre = None\<rparr>,
            \<lparr>book_id = lit ''b3'', title = lit ''C'', publishedYear = None, pages = Some 300, genre = None\<rparr>,
            \<lparr>book_id = lit ''b4'', title = lit ''D'', publishedYear = None, pages = Some 100, genre = None\<rparr>,
            \<lparr>book_id = lit ''b5'', title = lit ''E'', publishedYear = None, pages = None, genre = None\<rparr>])\<rparr>"
        "lit ''a1''"
        "\<lparr>author_id = lit ''a1'', author_name = lit ''Ann''\<rparr>"
        "[\<lparr>book_id = lit ''b1'', title = lit ''A'', publishedYear = None, pages = Some 100, genre = None\<rparr>,
          \<lparr>book_id = lit ''b2'', title = lit ''B'', publishedYear = None, pages = Some 300, genre = None\<rparr>,
          \<lparr>book_id = lit ''b3'', title = lit ''C'', publishedYear = None, pages = Some 300, genre = None\<rparr>,
          \<lparr>book_id = lit ''b4'', title = lit ''D'', publishedYear = None, pages = Some 100, genre = None\<rparr>,
          \<lparr>book_id = lit ''b5'', title = lit ''E'', publishedYear = None, pages = None, genre = None\<rparr>]"]
  by (simp add: GET_stats_def compute_stats_eq pages_or_0_def)

text \<open>
  C8, as stated: the genres are exactly the non-null genre values of the list. A book
  whose genre is the empty string has a non-null genre that is left out.
\<close>

theorem C8_counterexample:
  "GET_stats
       \<lparr>findUnique = (\<lambda>i. Resolved (Some \<lparr>author_id = lit ''a1'', author_name = lit ''Ann''\<rparr>)),
        findMany_books = (\<lambda>i. Resolved
          [\<lparr>book_id = lit ''b1'', title = lit ''A'', publishedYear = None, pages = None, genre = Some []\<rparr>])\<rparr>
       (lit ''a1'') =
     Json200 \<lparr>authorId = lit ''a1'', authorName = lit ''Ann'', totalBooks = 1,
       firstBook = None, latestBook = None, averagePages = Fin 0, genres = [],
       longestBook = None, shortestBook = None\<rparr> \<and>
   set ([] :: js_string list) \<noteq>
     {g. \<exists>b\<in>set [\<lparr>book_id = lit ''b1'', title = lit ''A'', publishedYear = None, pages = None, genre = Some []\<rparr>]. genre b = Some g}"
  by (simp add: GET_stats_def compute_stats_eq has_genre_def Array_from_Set_def)

text \<open>
  C8, amended: for every book list the genres field is sorted ascending, has no
  duplicates, and its elements are exactly the genre values of the list that are
  neither null nor the empty string, whatever the years and page counts are.
\<close>

theorem C8_genres_amended:
  assumes "findUnique store i = Resolved (Some a)"
    and "findMany_books store i = Resolved books"
  shows "\<exists>r. GET_stats store i = Json200 r \<and>
     sorted (genres r) \<and> distinct (genres r) \<and>
     set (genres r) = {g. g \<noteq> [] \<and> (\<exists>b\<in>set books. genre b = Some g)}"
proof -
  from GET_stats_resolved[OF assms] obtain r
    where c: "compute_stats a books = Some r" and g: "GET_stats store i = Json200 r"
    by blast
  have "sorted (genres r)" using stats_genres[OF c] by simp
  moreover have "distinct (genres r)"
    using stats_genres[OF c] by (simp add: distinct_Array_from_Set)
  moreover have "set (genres r) = {g. g \<noteq> [] \<and> (\<exists>b\<in>set books. genre b = Some g)}"
    using stats_genres[OF c] by (simp only: set_sort set_Array_from_Set set_genre_values)
  ultimately show ?thesis using g by blast
qed

theorem C8_witness:
  "\<exists>r. GET_stats
       \<lparr>findUnique = (\<lambda>i. Resolved (Some \<lparr>author_id = lit ''a1'', author_name = lit ''Ann''\<rparr>)),
        findMany_books = (\<lambda>i. Resolved
          [\<lparr>book_id = lit ''b1'', title = lit ''A'', publishedYear = None, pages = None, genre = Some (lit ''Novel'')\<rparr>,
           \<lparr>book_id = lit ''b2'', title = lit ''B'', publishedYear = None, pages = None, genre = Some (lit ''Essay'')\<rparr>,
           \<lparr>book_id = lit ''b3'', title = lit ''C'', publishedYear = None, pages = None, genre = None\<rparr>,
           \<lparr>book_id = lit ''b4'', title = lit ''D'', publishedYear = None, pages = None, genre = Some (lit ''Novel'')\<rparr>,
           \<lparr>book_id = lit ''b5'', title = lit ''E'', publishedYear = None, pages = None, genre = Some []\<rparr>])\<rparr>
       (lit ''a1'') = Json200 r \<and>
      sorted (genres r) \<and> distinct (genres r) \<and>
      set (genres r) = {lit ''Essay'', lit ''Novel''}"
  using C8_genres_amended
    [of "\<lparr>findUnique = (\<lambda>i. Resolved (Some \<lparr>author_id = lit ''a1'', author_name = lit ''Ann''\<rparr>)),
         findMany_books = (\<lambda>i. Resolved
           [\<lparr>book_id = lit ''b1'', title = lit ''A'', publishedYear = None, pages = None, genre = Some (lit ''Novel'')\<rparr>,
            \<lparr>book_id = lit ''b2'', title = lit ''B'', publishedYear = None, pages = None, genre = Some (lit ''Essay'')\<rparr>,
            \<lparr>book_id = lit ''b3'', title = lit ''C'', publishedYear = None, pages = None, genre = None\<rparr>,
            \<lparr>book_id = lit ''b4'', title = lit ''D'', publishedYear = None, pages = None, genre = Some (lit ''Novel'')\<rparr>,
            \<lparr>book_id = lit ''b5'', title = lit ''E'', publishedYear = None, pages = None, genre = Some []\<rparr>])\<rparr>"
        "lit ''a1''"
        "\<lparr>author_id = lit ''a1'', author_name = lit ''Ann''\<rparr>"
        "[\<lparr>book_id = lit ''b1'', title = lit ''A'', publishedYear = None, pages = None, genre = Some (lit ''Novel'')\<rparr>,
          \<lparr>book_id = lit ''b2'', title = lit ''B'', publishedYear = None, pages = None, genre = Some (lit ''Essay'')\<rparr>,
          \<lparr>book_id = lit ''b3'', title = lit ''C'', publishedYear = None, pages = None, genre = None\<rparr>,
          \<lparr>book_id = lit ''b4'', title = lit ''D'', publishedYear = None, pages = None, genre = Some (lit ''Novel'')\<rparr>,
          \<lparr>book_id = lit ''b5'', title = lit ''E'', publishedYear = None, pages = None, genre = Some []\<rparr>]"]
  by (auto simp: lit_def)

text \<open>
  C9. For an author whose book list is empty, the statistics handler answers 200 with
  totalBooks 0, firstBook, latestBook, longestBook and shortestBook null, averagePages 0
  and an empty genre list.
\<close>

theorem C9_empty_book_list:
  assumes "findUnique store i = Resolved (Some a)"
    and "findMany_books store i = Resolved []"
  shows "GET_stats store i =
     Json200 \<lparr>authorId = author_id a, authorName = author_name a,
       totalBooks = 0, firstBook = None, latestBook = None,
       averagePages = Fin 0, genres = [],
       longestBook = None, shortestBook = None\<rparr>"
  using assms by (simp add: GET_stats_def)

theorem C9_witness:
  "GET_stats
       \<lparr>findUnique = (\<lambda>i. Resolved (Some \<lparr>author_id = lit ''a1'', author_name = lit ''Ann''\<rparr>)),
        findMany_books = (\<lambda>i. Resolved
          [])\<rparr>
       (lit ''a1'') =
     Json200 \<lparr>authorId = lit ''a1'', authorName = lit ''Ann'', totalBooks = 0,
       firstBook = None, latestBook = None, averagePages = Fin 0, genres = [],
       longestBook = None, shortestBook = None\<rparr>"
  using C9_empty_book_list
    [of "\<lparr>findUnique = (\<lambda>i. Resolved (Some \<lparr>author_id = lit ''a1'', author_name = lit ''Ann''\<rparr>)),
         findMany_books = (\<lambda>i. Resolved
           [])\<rparr>"
        "lit ''a1''"
        "\<lparr>author_id = lit ''a1'', author_name = lit ''Ann''\<rparr>"]
  by simp

text \<open>
  C10, as stated: no book has a defined page count exactly when averagePages is 0. A
  single book of 0 pages has a defined page count, and longestBook and shortestBook
  are that book, yet averagePages is 0.
\<close>

theorem C10_counterexample:
  "GET_stats
       \<lparr>findUnique = (\<lambda>i. Resolved (Some \<lparr>author_id = lit ''a1'', author_name = lit ''Ann''\<rparr>)),
        findMany_books = (\<lambda>i. Resolved
          [\<lparr>book_id = lit ''b1'', title = lit ''A'', publishedYear = None, pages = Some 0, genre = None\<rparr>])\<rparr>
       (lit ''a1'') =
     Json200 \<lparr>authorId = lit ''a1'', authorName = lit ''Ann'', totalBooks = 1,
       firstBook = None, latestBook = None, averagePages = Fin 0, genres = [],
       longestBook = Some (lit ''A'', Some 0),
       shortestBook = Some (lit ''A'', Some 0)\<rparr>"
  by (simp add: GET_stats_def compute_stats_eq pages_or_0_def has_genre_def
      Array_from_Set_def signed_zero_def js_div_def)

text \<open>
  C10, amended: firstBook is null exactly when latestBook is, namely when no book has
  a year; longestBook is null exactly when shortestBook is, namely when no book has a
  page count, and then averagePages is 0 by the rule for the empty subset. averagePages
  can be 0 also when page counts are defined; it is 0 only when none is defined if
  every defined page count is positive and their sum is less than \<open>2^52\<close>.
\<close>

theorem C10_null_pairing_amended:
  assumes "findUnique store i = Resolved (Some a)"
    and "findMany_books store i = Resolved books"
  shows "\<exists>r. GET_stats store i = Json200 r \<and>
     (firstBook r = None \<longleftrightarrow> latestBook r = None) \<and>
     (firstBook r = None \<longleftrightarrow> (\<forall>b\<in>set books. publishedYear b = None)) \<and>
     (longestBook r = None \<longleftrightarrow> shortestBook r = None) \<and>
     (longestBook r = None \<longleftrightarrow> (\<forall>b\<in>set books. pages b = None)) \<and>
     ((\<forall>b\<in>set books. pages b = None) \<longrightarrow> averagePages r = Fin 0) \<and>
     ((\<forall>b\<in>set books. \<forall>p. pages b = Some p \<longrightarrow> 0 < p) \<and>
      sum_list (map abs (List.map_filter pages books)) < 2 ^ 52 \<longrightarrow>
        (json_number (averagePages r) = Some 0 \<longleftrightarrow> (\<forall>b\<in>set books. pages b = None)))"
proof -
  from GET_stats_resolved[OF assms] obtain r
    where c: "compute_stats a books = Some r" and g: "GET_stats store i = Json200 r"
    by blast
  have years: "filter (\<lambda>book. publishedYear book \<noteq> None) books = [] \<longleftrightarrow>
      (\<forall>b\<in>set books. publishedYear b = None)"
    by (auto simp: filter_empty_conv)
  have pgs: "filter (\<lambda>book. pages book \<noteq> None) books = [] \<longleftrightarrow> (\<forall>b\<in>set books. pages b = None)"
    by (auto simp: filter_empty_conv)
  have f: "firstBook r = None \<longleftrightarrow> (\<forall>b\<in>set books. publishedYear b = None)"
    using stats_firstBook[OF c] years by (simp split: list.splits)
  have l: "latestBook r = None \<longleftrightarrow> (\<forall>b\<in>set books. publishedYear b = None)"
    using stats_latestBook[OF c] years by (simp split: list.splits)
  have lo: "longestBook r = None \<longleftrightarrow> (\<forall>b\<in>set books. pages b = None)"
    using stats_longestBook[OF c] pgs by (simp split: list.splits)
  have sh: "shortestBook r = None \<longleftrightarrow> (\<forall>b\<in>set books. pages b = None)"
    using stats_shortestBook[OF c] pgs by (simp split: list.splits)
  have av0: "averagePages r = Fin 0" if "\<forall>b\<in>set books. pages b = None"
    using stats_averagePages[OF c] pgs that by (simp split: list.splits)
  have avpos: "json_number (averagePages r) = Some 0 \<longleftrightarrow> (\<forall>b\<in>set books. pages b = None)"
    if pos: "\<forall>b\<in>set books. \<forall>p. pages b = Some p \<longrightarrow> 0 < p"
      and bound: "sum_list (map abs (List.map_filter pages books)) < 2 ^ 52"
  proof
    assume "\<forall>b\<in>set books. pages b = None"
    then show "json_number (averagePages r) = Some 0" using av0 by simp
  next
    assume z: "json_number (averagePages r) = Some 0"
    show "\<forall>b\<in>set books. pages b = None"
    proof (rule ccontr)
      assume "\<not> (\<forall>b\<in>set books. pages b = None)"
      then have ne: "List.map_filter pages books \<noteq> []"
        using pgs by (simp add: List.map_filter_def)
      have all_pos: "\<forall>p\<in>set (List.map_filter pages books). 1 \<le> p"
        using pos by (fastforce simp: List.map_filter_def)
      have le: "int (length (List.map_filter pages books)) \<le> sum_list (List.map_filter pages books)"
        using all_pos by (rule length_le_sum_list)
      have n: "(0::real) < of_nat (length (List.map_filter pages books))" using ne by simp
      have "(1::real) \<le> of_int (sum_list (List.map_filter pages books)) /
          of_nat (length (List.map_filter pages books))"
        using le n by (simp add: pos_le_divide_eq of_int_le_iff[symmetric] del: of_int_le_iff)
      then have "round (1::real) \<le> round (of_int (sum_list (List.map_filter pages books)) /
          of_nat (length (List.map_filter pages books)) :: real)"
        by (rule round_mono)
      then have "1 \<le> round (of_int (sum_list (List.map_filter pages books)) /
          of_nat (length (List.map_filter pages books)) :: real)"
        by simp
      with z json_averagePages[OF c bound] ne show False by simp
    qed
  qed
  show ?thesis
  proof (intro exI[of _ r] conjI)
    show "GET_stats store i = Json200 r" by (rule g)
    show "firstBook r = None \<longleftrightarrow> latestBook r = None" using f l by simp
    show "firstBook r = None \<longleftrightarrow> (\<forall>b\<in>set books. publishedYear b = None)" by (rule f)
    show "longestBook r = None \<longleftrightarrow> shortestBook r = None" using lo sh by simp
    show "longestBook r = None \<longleftrightarrow> (\<forall>b\<in>set books. pages b = None)" by (rule lo)
    show "(\<forall>b\<in>set books. pages b = None) \<longrightarrow> averagePages r = Fin 0" using av0 by blast
    show "(\<forall>b\<in>set books. \<forall>p. pages b = Some p \<longrightarrow> 0 < p) \<and>
      sum_list (map abs (List.map_filter pages books)) < 2 ^ 52 \<longrightarrow>
        (json_number (averagePages r) = Some 0 \<longleftrightarrow> (\<forall>b\<in>set books. pages b = None))"
      using avpos by blast
  qed
qed

theorem C10_witness:
  "(\<exists>r. GET_stats
       \<lparr>findUnique = (\<lambda>i. Resolved (Some \<lparr>author_id = lit ''a1'', author_name = lit ''Ann''\<rparr>)),
        findMany_books = (\<lambda>i. Resolved
          [\<lparr>book_id = lit ''b1'', title = lit ''One'', publishedYear = Some 2001, pages = None, genre = None\<rparr>])\<rparr>
       (lit ''a1'') = Json200 r \<and>
      firstBook r \<noteq> None \<and> latestBook r \<noteq> None \<and>
      longestBook r = None \<and> shortestBook r = None \<and> averagePages r = Fin 0) \<and>
   (\<exists>r. GET_stats
       \<lparr>findUnique = (\<lambda>i. Resolved (Some \<lparr>author_id = lit ''a1'', author_name = lit ''Ann''\<rparr>)),
        findMany_books = (\<lambda>i. Resolved
          [\<lparr>book_id = lit ''b1'', title = lit ''One'', publishedYear = None, pages = Some 120, genre = None\<rparr>,
           \<lparr>book_id = lit ''b2'', title = lit ''Two'', publishedYear = None, pages = Some 80, genre = None\<rparr>])\<rparr>
       (lit ''a1'') = Json200 r \<and>
      firstBook r = None \<and> latestBook r = None \<and>
      longestBook r \<noteq> None \<and> shortestBook r \<noteq> None \<and>
      json_number (averagePages r) \<noteq> Some 0)"
  using C10_null_pairing_amended
    [of "\<lparr>findUnique = (\<lambda>i. Resolved (Some \<lparr>author_id = lit ''a1'', author_name = lit ''Ann''\<rparr>)),
         findMany_books = (\<lambda>i. Resolved
           [\<lparr>book_id = lit ''b1'', title = lit ''One'', publishedYear = Some 2001, pages = None, genre = None\<rparr>])\<rparr>"
        "lit ''a1''"
        "\<lparr>author_id = lit ''a1'', author_name = lit ''Ann''\<rparr>"
        "[\<lparr>book_id = lit ''b1'', title = lit ''One'', publishedYear = Some 2001, pages = None, genre = None\<rparr>]"]
    C10_null_pairing_amended
    [of "\<lparr>findUnique = (\<lambda>i. Resolved (Some \<lparr>author_id = lit ''a1'', author_name = lit ''Ann''\<rparr>)),
         findMany_books = (\<lambda>i. Resolved
           [\<lparr>book_id = lit ''b1'', title = lit ''One'', publishedYear = None, pages = Some 120, genre = None\<rparr>,
            \<lparr>book_id = lit ''b2'', title = lit ''Two'', publishedYear = None, pages = Some 80, genre = None\<rparr>])\<rparr>"
        "lit ''a1''"
        "\<lparr>author_id = lit ''a1'', author_name = lit ''Ann''\<rparr>"
        "[\<lparr>book_id = lit ''b1'', title = lit ''One'', publishedYear = None, pages = Some 120, genre = None\<rparr>,
          \<lparr>book_id = lit ''b2'', title = lit ''Two'', publishedYear = None, pages = Some 80, genre = None\<rparr>]"]
  by auto

end
